theory Spec2Isabelle
  imports Main "HOL-Library.AList"
begin

section \<open>Package sandbox: data model\<close>

text \<open>
  Instants and durations (\<^verbatim>\<open>time.Time\<close>, \<^verbatim>\<open>time.Duration\<close>) are integers
  on one common scale. Every call of the model receives the reading \<open>now\<close> of the
  wall clock; the clock is taken not to advance inside one call. The integers are
  unbounded: the model does not follow the wrap-around of a \<^verbatim>\<open>time.Duration\<close>
  (64 bits of nanoseconds), which only a product such as \<^verbatim>\<open>IdleTimeout*2\<close> beyond
  some 292 years could reach.
\<close>

type_synonym time = int

datatype Status =
  StatusCreating | StatusIdle | StatusActive | StatusPaused | StatusStopped | StatusError

record Sandbox =
  ID :: string
  Status :: Status
  ContainerID :: string
  Image :: string
  IP :: string
  CreatedAt :: time
  LastActiveAt :: time
  Labels :: "(string \<times> string) list"

record Config =
  cfgImage :: string
  CPUCount :: int
  MemoryMB :: int
  DiskSizeMB :: int
  MaxExecutionTime :: int
  MaxOutputSize :: int
  NetworkEnabled :: bool
  AllowedHosts :: "string list"
  WorkDir :: string

record ExecRequest =
  Code :: string
  Language :: string
  Command :: "string list"
  reqWorkDir :: string
  Env :: "(string \<times> string) list"
  Timeout :: int
  Stdin :: "string option"

record ExecResult =
  ExitCode :: int
  Stdout :: string
  Stderr :: string
  Duration :: int
  TimedOut :: bool
  Error :: string


text \<open>
  The code hands sandboxes around as \<^verbatim>\<open>*Sandbox\<close>: the runtime's map, the pool's
  idle list and active map and every caller share one object per sandbox. A \<open>ref\<close>
  is such a pointer and the heap gives the object behind it; \<open>next_ref\<close> is the
  next address the allocator hands out.
\<close>

type_synonym ref = nat

record Heap =
  cells :: "ref \<Rightarrow> Sandbox"
  next_ref :: ref

definition deref :: "Heap \<Rightarrow> ref \<Rightarrow> Sandbox" where
  "deref h a = cells h a"

definition assign :: "Heap \<Rightarrow> ref \<Rightarrow> (Sandbox \<Rightarrow> Sandbox) \<Rightarrow> Heap" where
  "assign h a f = h\<lparr>cells := (cells h)(a := f (cells h a))\<rparr>"

definition alloc :: "Heap \<Rightarrow> Sandbox \<Rightarrow> ref \<times> Heap" where
  "alloc h sb = (next_ref h, h\<lparr>cells := (cells h)(next_ref h := sb), next_ref := Suc (next_ref h)\<rparr>)"

text \<open>
  Errors are values. The source builds them with \<^verbatim>\<open>errors.New\<close> and
  \<^verbatim>\<open>fmt.Errorf\<close>; each constructor stands for one message of the source, and
  \<open>Wrapped\<close> for the \<^verbatim>\<open>%w\<close> wrapping of an error of a collaborator.
\<close>

datatype error =
  ErrPoolExhausted
  | ErrPoolClosed
  | ErrNotInActivePool
  | ErrPoolSandboxNotFound
  | ErrNotFoundOrNotActive
  | ErrSandboxNotFound string
  | ErrBackend string
  | Wrapped string error
  | ErrShortWrite

section \<open>limitedWriter (docker.go)\<close>

text \<open>
  \<^verbatim>\<open>limitedWriter{w, limit, written}\<close>. The wrapped writer is always a
  \<^verbatim>\<open>bytes.Buffer\<close>, whose \<^verbatim>\<open>Write\<close> appends all of \<open>p\<close> and returns
  \<^verbatim>\<open>(len(p), nil)\<close>; \<open>buf\<close> is the content of that buffer.
\<close>

record limitedWriter =
  buf :: string
  limit :: int
  written :: int

definition lw_Write :: "limitedWriter \<Rightarrow> string \<Rightarrow> (int \<times> error option) \<times> limitedWriter" where
  "lw_Write lw p =
     (if written lw \<ge> limit lw then ((int (length p), None), lw)
      else
        let remaining = limit lw - written lw;
            p' = (if int (length p) > remaining then take (nat remaining) p else p);
            n = int (length p')
        in ((n, None), lw\<lparr>buf := buf lw @ p', written := written lw + n\<rparr>))"

definition new_limitedWriter :: "int \<Rightarrow> limitedWriter" where
  "new_limitedWriter l = \<lparr>buf = [], limit = l, written = 0\<rparr>"

text \<open>
  \<^verbatim>\<open>stdcopy.StdCopy\<close> belongs to the Docker client library. It reads the
  multiplexed stream frame by frame and hands each payload to the writer of its stream
  in one \<^verbatim>\<open>Write\<close>; it stops with the writer's error, with
  \<^verbatim>\<open>io.ErrShortWrite\<close> when a \<^verbatim>\<open>Write\<close> reports fewer bytes than the
  payload, and with an error built from the payload on a system-error frame.
\<close>

datatype StdType = StdinStream | StdoutStream | StderrStream | Systemerr

fun StdCopy ::
  "limitedWriter \<Rightarrow> limitedWriter \<Rightarrow> (StdType \<times> string) list
     \<Rightarrow> error option \<times> limitedWriter \<times> limitedWriter" where
  "StdCopy dstout dsterr [] = (None, dstout, dsterr)"
| "StdCopy dstout dsterr ((t, payload) # frames) =
     (case t of
        Systemerr \<Rightarrow> (Some (ErrBackend payload), dstout, dsterr)
      | StderrStream \<Rightarrow>
          (case lw_Write dsterr payload of ((nw, ew), dsterr') \<Rightarrow>
             (if ew \<noteq> None then (ew, dstout, dsterr')
              else if nw \<noteq> int (length payload) then (Some ErrShortWrite, dstout, dsterr')
              else StdCopy dstout dsterr' frames))
      | _ \<Rightarrow>
          (case lw_Write dstout payload of ((nw, ew), dstout') \<Rightarrow>
             (if ew \<noteq> None then (ew, dstout', dsterr)
              else if nw \<noteq> int (length payload) then (Some ErrShortWrite, dstout', dsterr)
              else StdCopy dstout' dsterr frames)))"

text \<open>A writer is in step when its counter is the length of what it let through.\<close>

definition lw_ok :: "limitedWriter \<Rightarrow> bool" where
  "lw_ok lw = (written lw = int (length (buf lw)) \<and> written lw \<le> limit lw)"

text \<open>
  The bytes that the frames carry for one stream, in order: standard error for
  \<open>True\<close>, standard output (with the frames marked as input) for \<open>False\<close>.
\<close>

definition stream_bytes :: "bool \<Rightarrow> (StdType \<times> string) list \<Rightarrow> string" where
  "stream_bytes err frames =
     concat (map snd (filter (\<lambda>f. fst f \<noteq> Systemerr \<and> (fst f = StderrStream) = err) frames))"

section \<open>DockerRuntime (docker.go)\<close>

text \<open>
  The runtime keeps \<^verbatim>\<open>sandboxes map[string]*Sandbox\<close>. The Docker daemon is
  outside the program: what it answers to each call is an input of the model, one record
  per runtime method.
\<close>

record DockerRuntime =
  rt_config :: Config
  sandboxes :: "string \<rightharpoonup> ref"

definition NewDockerRuntime :: "Config \<Rightarrow> DockerRuntime" where
  "NewDockerRuntime c = \<lparr>rt_config = c, sandboxes = Map.empty\<rparr>"

definition labelSandboxID :: string where
  "labelSandboxID = ''cloud-sandbox.sandbox-id''"

definition labelManaged :: string where
  "labelManaged = ''cloud-sandbox.managed''"

record create_io =
  generateSandboxID :: string
  ensureImage :: "error option"
  ContainerCreate :: "error + string"
  ContainerStart :: "error option"
  ContainerInspect :: "error + string"

definition merge_config :: "Config \<Rightarrow> Config \<Rightarrow> Config" where
  "merge_config d c =
     c\<lparr>cfgImage := (if cfgImage c = [] then cfgImage d else cfgImage c),
       CPUCount := (if CPUCount c = 0 then CPUCount d else CPUCount c),
       MemoryMB := (if MemoryMB c = 0 then MemoryMB d else MemoryMB c),
       WorkDir := (if WorkDir c = [] then WorkDir d else WorkDir c)\<rparr>"

definition rt_Create ::
  "DockerRuntime \<Rightarrow> Heap \<Rightarrow> time \<Rightarrow> Config \<Rightarrow> create_io
     \<Rightarrow> (error + ref) \<times> DockerRuntime \<times> Heap" where
  "rt_Create r h now c io =
     (let c' = merge_config (rt_config r) c; sandboxID = generateSandboxID io in
      case ensureImage io of
        Some e \<Rightarrow> (Inl (Wrapped ''failed to ensure image'' e), r, h)
      | None \<Rightarrow>
     (case ContainerCreate io of
        Inl e \<Rightarrow> (Inl (Wrapped ''failed to create container'' e), r, h)
      | Inr cid \<Rightarrow>
     (case ContainerStart io of
        Some e \<Rightarrow> (Inl (Wrapped ''failed to start container'' e), r, h)
      | None \<Rightarrow>
     (case ContainerInspect io of
        Inl e \<Rightarrow> (Inl (Wrapped ''failed to inspect container'' e), r, h)
      | Inr ip \<Rightarrow>
          (case alloc h \<lparr>ID = sandboxID, Status = StatusIdle, ContainerID = cid,
                          Image = cfgImage c', IP = ip, CreatedAt = now, LastActiveAt = now,
                          Labels = [(labelSandboxID, sandboxID), (labelManaged, ''true'')]\<rparr> of
             (a, h') \<Rightarrow> (Inr a, r\<lparr>sandboxes := (sandboxes r)(sandboxID \<mapsto> a)\<rparr>, h'))))))"

definition rt_Get :: "DockerRuntime \<Rightarrow> string \<Rightarrow> error + ref" where
  "rt_Get r sid = (case sandboxes r sid of None \<Rightarrow> Inl (ErrSandboxNotFound sid) | Some a \<Rightarrow> Inr a)"

text \<open>
  \<^verbatim>\<open>Destroy\<close>: \<open>rm\<close> is the daemon's answer to \<^verbatim>\<open>ContainerRemove\<close> (asked
  only when the lookup succeeds).
\<close>

definition rt_Destroy :: "DockerRuntime \<Rightarrow> string \<Rightarrow> error option \<Rightarrow> error option \<times> DockerRuntime" where
  "rt_Destroy r sid rm =
     (case rt_Get r sid of
        Inl e \<Rightarrow> (Some e, r)
      | Inr a \<Rightarrow>
          (case rm of
             Some e \<Rightarrow> (Some (Wrapped ''failed to remove container'' e), r)
           | None \<Rightarrow> (None, r\<lparr>sandboxes := (sandboxes r)(sid := None)\<rparr>)))"

text \<open>
  \<^verbatim>\<open>Exec\<close>. The command line, working directory, environment and time limit
  that \<^verbatim>\<open>Exec\<close> computes from the request are arguments of the Docker calls only;
  the daemon's answers are the fields of \<open>exec_io\<close>: the results of creating,
  attaching to and inspecting the exec instance, the frames the copier had read when
  \<^verbatim>\<open>Exec\<close> looked at the buffers, whether the deadline fired before the copier
  finished, and the time that passed.
\<close>

record exec_io =
  ContainerExecCreate :: "error + string"
  ContainerExecAttach :: "error option"
  Frames :: "(StdType \<times> string) list"
  DeadlineFired :: bool
  Elapsed :: int
  ContainerExecInspect :: "error + int"

definition exec_enter :: "Heap \<Rightarrow> ref \<Rightarrow> time \<Rightarrow> Heap" where
  "exec_enter h a now = assign h a (\<lambda>sb. sb\<lparr>Status := StatusActive, LastActiveAt := now\<rparr>)"

definition exec_exit :: "Heap \<Rightarrow> ref \<Rightarrow> Heap" where
  "exec_exit h a = assign h a (\<lambda>sb. sb\<lparr>Status := StatusIdle\<rparr>)"

definition exec_body :: "Config \<Rightarrow> exec_io \<Rightarrow> error + ExecResult" where
  "exec_body c io =
     (case ContainerExecCreate io of
        Inl e \<Rightarrow> Inl (Wrapped ''failed to create exec'' e)
      | Inr execID \<Rightarrow>
     (case ContainerExecAttach io of
        Some e \<Rightarrow> Inl (Wrapped ''failed to attach to exec'' e)
      | None \<Rightarrow>
     (case StdCopy (new_limitedWriter (MaxOutputSize c)) (new_limitedWriter (MaxOutputSize c))
             (Frames io) of
        (copy_err, stdout, stderr) \<Rightarrow>
     (case ContainerExecInspect io of
        Inl e \<Rightarrow> Inl (Wrapped ''failed to inspect exec'' e)
      | Inr code \<Rightarrow>
          Inr \<lparr>ExitCode = code, Stdout = buf stdout, Stderr = buf stderr,
               Duration = Elapsed io, TimedOut = DeadlineFired io, Error = []\<rparr>))))"

definition Exec ::
  "DockerRuntime \<Rightarrow> Heap \<Rightarrow> time \<Rightarrow> string \<Rightarrow> ExecRequest \<Rightarrow> exec_io
     \<Rightarrow> (error + ExecResult) \<times> Heap" where
  "Exec r h now sid req io =
     (case rt_Get r sid of
        Inl e \<Rightarrow> (Inl e, h)
      | Inr a \<Rightarrow> (exec_body (rt_config r) io, exec_exit (exec_enter h a now) a))"

section \<open>Concrete values used by the examples\<close>

definition cfg0 :: Config where
  "cfg0 = \<lparr>cfgImage = ''alpine:latest'', CPUCount = 2, MemoryMB = 2048, DiskSizeMB = 10240,
            MaxExecutionTime = 300, MaxOutputSize = 4, NetworkEnabled = True,
            AllowedHosts = [], WorkDir = ''/workspace''\<rparr>"

definition sb0 :: Sandbox where
  "sb0 = \<lparr>ID = [], Status = StatusStopped, ContainerID = [], Image = [], IP = [],
           CreatedAt = 0, LastActiveAt = 0, Labels = []\<rparr>"

definition h0 :: Heap where
  "h0 = \<lparr>cells = (\<lambda>_. sb0), next_ref = 0\<rparr>"

definition cio0 :: create_io where
  "cio0 = \<lparr>generateSandboxID = ''ab12cd34'', ensureImage = None, ContainerCreate = Inr ''c0ffee'',
            ContainerStart = None, ContainerInspect = Inr ''172.17.0.2''\<rparr>"

definition req0 :: ExecRequest where
  "req0 = \<lparr>Code = [], Language = [], Command = [''cat'', ''big.txt''], reqWorkDir = [],
            Env = [], Timeout = 0, Stdin = None\<rparr>"

definition eio0 :: exec_io where
  "eio0 = \<lparr>ContainerExecCreate = Inr ''e1'', ContainerExecAttach = None,
            Frames = [(StderrStream, ''warn''), (StdoutStream, ''hello world''), (StderrStream, ''more'')],
            DeadlineFired = False, Elapsed = 3, ContainerExecInspect = Inr 0\<rparr>"

text \<open>The runtime and the heap after one successful \<^verbatim>\<open>Create\<close> at time 10.\<close>

definition r1 :: DockerRuntime where
  "r1 = fst (snd (rt_Create (NewDockerRuntime cfg0) h0 10 cfg0 cio0))"

definition h1 :: Heap where
  "h1 = snd (snd (rt_Create (NewDockerRuntime cfg0) h0 10 cfg0 cio0))"

section \<open>Pool (pool.go)\<close>

record PoolConfig =
  MinSize :: int
  MaxSize :: int
  WarmupSize :: int
  IdleTimeout :: int
  CleanupInterval :: int
  SandboxConfig :: Config

text \<open>
  \<^verbatim>\<open>idle []*Sandbox\<close> is a list with the top of the stack at its end;
  \<^verbatim>\<open>active map[string]*Sandbox\<close> is an association list kept free of repeated
  keys by \<open>AList.update\<close> and \<open>AList.delete\<close>, so that \<^verbatim>\<open>len(p.active)\<close> is
  its length.
\<close>

record Pool =
  config :: PoolConfig
  idle :: "ref list"
  active :: "(string \<times> ref) list"
  creating :: int
  closed :: bool

text \<open>
  \<^verbatim>\<open>NewPool\<close>: \<^verbatim>\<open>make([]*Sandbox, 0, config.MaxSize)\<close> panics on a negative
  capacity, so no pool exists for a negative \<^verbatim>\<open>MaxSize\<close> (\<open>None\<close>). The model
  creates a pool for every other configuration, also for those on which the program
  stops for another reason (a capacity too large to allocate, or a
  \<^verbatim>\<open>CleanupInterval\<close> that is not positive, on which the ticker of the cleanup loop
  panics): it has more pools than the program, never fewer.
\<close>

definition NewPool :: "PoolConfig \<Rightarrow> Pool option" where
  "NewPool c =
     (if MaxSize c < 0 then None
      else Some \<lparr>config = c, idle = [], active = [], creating = 0, closed = False\<rparr>)"

definition totalCount :: "Pool \<Rightarrow> int" where
  "totalCount p = int (length (active p)) + int (length (idle p)) + creating p"

text \<open>
  \<^verbatim>\<open>Acquire\<close> takes the lock twice. \<open>Acquire_lock1\<close> is the first critical
  section: it fails, or pops the idle list (\<open>Inr (Some sb)\<close>), or claims a slot for
  a new sandbox (\<open>Inr None\<close>). \<open>Acquire_lock2\<close> is the second one, entered with
  the result \<open>cr\<close> of \<^verbatim>\<open>p.runtime.Create\<close>.
\<close>

definition Acquire_lock1 :: "Pool \<Rightarrow> Heap \<Rightarrow> (error + ref option) \<times> Pool" where
  "Acquire_lock1 p h =
     (if closed p then (Inl ErrPoolClosed, p)
      else if length (idle p) > 0 then
        (let sb = last (idle p) in
         (Inr (Some sb),
          p\<lparr>idle := butlast (idle p), active := AList.update (ID (deref h sb)) sb (active p)\<rparr>))
      else if totalCount p \<ge> MaxSize (config p) then (Inl ErrPoolExhausted, p)
      else (Inr None, p\<lparr>creating := creating p + 1\<rparr>))"

definition Acquire_lock2 :: "Pool \<Rightarrow> Heap \<Rightarrow> error + ref \<Rightarrow> (error + ref) \<times> Pool" where
  "Acquire_lock2 p h cr =
     (case cr of
        Inl e \<Rightarrow> (Inl e, p\<lparr>creating := creating p - 1\<rparr>)
      | Inr sb \<Rightarrow>
          (Inr sb, p\<lparr>creating := creating p - 1,
                     active := AList.update (ID (deref h sb)) sb (active p)\<rparr>))"

text \<open>
  One whole call of \<^verbatim>\<open>Acquire\<close> with nothing in between. \<open>create\<close> is the
  runtime behind the interface: from the heap it gives the result of
  \<^verbatim>\<open>Create\<close> and the heap with the new sandbox in it. The status (and on the idle
  path the time stamp) is written after the lock is released.
\<close>

definition Acquire ::
  "Pool \<Rightarrow> Heap \<Rightarrow> time \<Rightarrow> (Heap \<Rightarrow> (error + ref) \<times> Heap) \<Rightarrow> (error + ref) \<times> Pool \<times> Heap" where
  "Acquire p h now create =
     (case Acquire_lock1 p h of
        (Inl e, p') \<Rightarrow> (Inl e, p', h)
      | (Inr (Some sb), p') \<Rightarrow>
          (Inr sb, p', assign h sb (\<lambda>s. s\<lparr>Status := StatusActive, LastActiveAt := now\<rparr>))
      | (Inr None, p') \<Rightarrow>
          (case create h of (cr, hc) \<Rightarrow>
             (case Acquire_lock2 p' hc cr of
                (Inl e, p'') \<Rightarrow> (Inl e, p'', hc)
              | (Inr sb, p'') \<Rightarrow> (Inr sb, p'', assign hc sb (\<lambda>s. s\<lparr>Status := StatusActive\<rparr>)))))"

text \<open>
  \<^verbatim>\<open>Release\<close>. The last component is the sandbox handed to the detached
  goroutine that destroys it, if any.
\<close>

definition Release ::
  "Pool \<Rightarrow> Heap \<Rightarrow> time \<Rightarrow> string \<Rightarrow> error option \<times> Pool \<times> Heap \<times> ref option" where
  "Release p h now sid =
     (case map_of (active p) sid of
        None \<Rightarrow> (Some ErrNotInActivePool, p, h, None)
      | Some sb \<Rightarrow>
          (let p1 = p\<lparr>active := AList.delete sid (active p)\<rparr> in
           if int (length (idle p1)) < MaxSize (config p1) \<and> \<not> closed p1 then
             (None, p1\<lparr>idle := idle p1 @ [sb]\<rparr>,
              assign h sb (\<lambda>s. s\<lparr>Status := StatusIdle, LastActiveAt := now\<rparr>), None)
           else (None, p1, h, Some sb)))"

fun remove_by_id :: "Heap \<Rightarrow> string \<Rightarrow> ref list \<Rightarrow> (ref \<times> ref list) option" where
  "remove_by_id h sid [] = None"
| "remove_by_id h sid (sb # rest) =
     (if ID (deref h sb) = sid then Some (sb, rest)
      else map_option (\<lambda>(x, r). (x, sb # r)) (remove_by_id h sid rest))"

definition Destroy_lock :: "Pool \<Rightarrow> Heap \<Rightarrow> string \<Rightarrow> ref option \<times> Pool" where
  "Destroy_lock p h sid =
     (case map_of (active p) sid of
        Some sb \<Rightarrow> (Some sb, p\<lparr>active := AList.delete sid (active p)\<rparr>)
      | None \<Rightarrow>
          (case remove_by_id h sid (idle p) of
             Some (sb, rest) \<Rightarrow> (Some sb, p\<lparr>idle := rest\<rparr>)
           | None \<Rightarrow> (None, p)))"

text \<open>\<^verbatim>\<open>Pool.Destroy\<close>; \<open>rd\<close> is what \<^verbatim>\<open>p.runtime.Destroy\<close> returns.\<close>

definition Pool_Destroy :: "Pool \<Rightarrow> Heap \<Rightarrow> string \<Rightarrow> error option \<Rightarrow> error option \<times> Pool" where
  "Pool_Destroy p h sid rd =
     (case Destroy_lock p h sid of
        (Some sb, p') \<Rightarrow> (rd, p')
      | (None, p') \<Rightarrow> (Some ErrPoolSandboxNotFound, p'))"

definition Pool_Get :: "Pool \<Rightarrow> string \<Rightarrow> error + ref" where
  "Pool_Get p sid =
     (case map_of (active p) sid of Some sb \<Rightarrow> Inr sb | None \<Rightarrow> Inl ErrNotFoundOrNotActive)"

definition Stats :: "Pool \<Rightarrow> (string \<times> int) list" where
  "Stats p = [(''idle'', int (length (idle p))), (''active'', int (length (active p))),
              (''creating'', creating p), (''max'', MaxSize (config p))]"

text \<open>
  \<^verbatim>\<open>warmup\<close> reads \<open>needed\<close> under the read lock and starts that many
  creators. Each creator takes the lock to check the capacity and claim a slot
  (\<open>warmup_claim\<close>), calls \<^verbatim>\<open>Create\<close> without the lock, and takes the lock
  again with the result (\<open>warmup_done\<close>).
\<close>

definition warmup_needed :: "Pool \<Rightarrow> int" where
  "warmup_needed p = WarmupSize (config p) - int (length (idle p)) - creating p"

definition warmup_claim :: "Pool \<Rightarrow> bool \<times> Pool" where
  "warmup_claim p =
     (if int (length (idle p)) + int (length (active p)) + creating p \<ge> MaxSize (config p)
      then (False, p)
      else (True, p\<lparr>creating := creating p + 1\<rparr>))"

definition warmup_done :: "Pool \<Rightarrow> error + ref \<Rightarrow> Pool" where
  "warmup_done p cr =
     (case cr of
        Inl e \<Rightarrow> p\<lparr>creating := creating p - 1\<rparr>
      | Inr sb \<Rightarrow> p\<lparr>creating := creating p - 1, idle := idle p @ [sb]\<rparr>)"

text \<open>
  \<^verbatim>\<open>cleanup\<close>. \<open>cleanup_scan\<close> is the first loop: \<open>n\<close> is
  \<^verbatim>\<open>len(p.idle)\<close>, \<open>i\<close> the index of the next entry, and the loop breaks when
  an entry is timed out and the minimum is reached. The indices found are cut out from
  the back; then the stuck active sandboxes are dropped.
\<close>

fun cleanup_scan ::
  "Heap \<Rightarrow> PoolConfig \<Rightarrow> time \<Rightarrow> nat \<Rightarrow> nat \<Rightarrow> ref list \<Rightarrow> nat list \<Rightarrow> nat list" where
  "cleanup_scan h c now n i [] toRemove = toRemove"
| "cleanup_scan h c now n i (sb # rest) toRemove =
     (if now - LastActiveAt (deref h sb) > IdleTimeout c then
        (if int n - int (length toRemove) \<le> MinSize c then toRemove
         else cleanup_scan h c now n (Suc i) rest (toRemove @ [i]))
      else cleanup_scan h c now n (Suc i) rest toRemove)"

definition cut_at :: "nat \<Rightarrow> 'a list \<Rightarrow> 'a list" where
  "cut_at idx xs = take idx xs @ drop (Suc idx) xs"

definition stuck :: "Heap \<Rightarrow> PoolConfig \<Rightarrow> time \<Rightarrow> string \<times> ref \<Rightarrow> bool" where
  "stuck h c now e = (now - LastActiveAt (deref h (snd e)) > IdleTimeout c * 2)"

definition cleanup :: "Pool \<Rightarrow> Heap \<Rightarrow> time \<Rightarrow> Pool \<times> ref list" where
  "cleanup p h now =
     (let toRemove = cleanup_scan h (config p) now (length (idle p)) 0 (idle p) [];
          toDestroy = map (\<lambda>i. idle p ! i) toRemove
                        @ map snd (filter (stuck h (config p) now) (active p))
      in (p\<lparr>idle := fold cut_at (rev toRemove) (idle p),
            active := filter (\<lambda>e. \<not> stuck h (config p) now e) (active p)\<rparr>,
          toDestroy))"

text \<open>The critical section of \<^verbatim>\<open>Close\<close>, with the sandboxes it collects.\<close>

definition Close_lock :: "Pool \<Rightarrow> Pool \<times> ref list" where
  "Close_lock p =
     (if closed p then (p, [])
      else (p\<lparr>closed := True, idle := [], active := []\<rparr>, idle p @ map snd (active p)))"

subsection \<open>Interleavings\<close>

text \<open>
  The mutex makes every critical section one atomic step; between two of them anything
  else may run. A world is the pool, the heap and the goroutines that are between two
  critical sections: \<open>acquiring\<close> counts the calls of \<^verbatim>\<open>Acquire\<close> waiting for
  \<^verbatim>\<open>Create\<close>, \<open>spawned\<close> the warmup creators that have not yet taken the lock,
  \<open>warming\<close> those waiting for \<^verbatim>\<open>Create\<close>. An event is one atomic step;
  \<open>EnvHeap\<close> is any write to the sandbox objects by code outside the pool (the
  runtime creating a sandbox, \<^verbatim>\<open>Exec\<close> setting a status). A step that is not
  enabled gives \<open>None\<close>.
\<close>

record World =
  heap :: Heap
  pool :: Pool
  acquiring :: nat
  spawned :: nat
  warming :: nat

datatype event =
  EnvHeap Heap
  | AcquireBegin time
  | AcquireEnd "error + ref"
  | ReleaseCall time string
  | DestroyCall string
  | WarmupTick
  | WarmupBegin
  | WarmupEnd "error + ref"
  | CleanupTick time
  | CloseCall

definition init_world :: "Heap \<Rightarrow> Pool \<Rightarrow> World" where
  "init_world h p = \<lparr>heap = h, pool = p, acquiring = 0, spawned = 0, warming = 0\<rparr>"

fun step :: "World \<Rightarrow> event \<Rightarrow> World option" where
  "step s (EnvHeap h') = Some (s\<lparr>heap := h'\<rparr>)"
| "step s (AcquireBegin now) =
     (case Acquire_lock1 (pool s) (heap s) of
        (Inl e, p') \<Rightarrow> Some (s\<lparr>pool := p'\<rparr>)
      | (Inr (Some sb), p') \<Rightarrow>
          Some (s\<lparr>pool := p',
                  heap := assign (heap s) sb (\<lambda>x. x\<lparr>Status := StatusActive, LastActiveAt := now\<rparr>)\<rparr>)
      | (Inr None, p') \<Rightarrow> Some (s\<lparr>pool := p', acquiring := Suc (acquiring s)\<rparr>))"
| "step s (AcquireEnd cr) =
     (if acquiring s = 0 then None
      else
        (case Acquire_lock2 (pool s) (heap s) cr of
           (Inl e, p') \<Rightarrow> Some (s\<lparr>pool := p', acquiring := acquiring s - 1\<rparr>)
         | (Inr sb, p') \<Rightarrow>
             Some (s\<lparr>pool := p', acquiring := acquiring s - 1,
                     heap := assign (heap s) sb (\<lambda>x. x\<lparr>Status := StatusActive\<rparr>)\<rparr>)))"
| "step s (ReleaseCall now sid) =
     (case Release (pool s) (heap s) now sid of
        (r, p', h', d) \<Rightarrow> Some (s\<lparr>pool := p', heap := h'\<rparr>))"
| "step s (DestroyCall sid) =
     (case Destroy_lock (pool s) (heap s) sid of (r, p') \<Rightarrow> Some (s\<lparr>pool := p'\<rparr>))"
| "step s WarmupTick =
     (if spawned s = 0 \<and> warming s = 0
      then Some (s\<lparr>spawned := nat (warmup_needed (pool s))\<rparr>)
      else None)"
| "step s WarmupBegin =
     (if spawned s = 0 then None
      else
        (case warmup_claim (pool s) of
           (ok, p') \<Rightarrow>
             Some (s\<lparr>pool := p', spawned := spawned s - 1,
                     warming := (if ok then Suc (warming s) else warming s)\<rparr>)))"
| "step s (WarmupEnd cr) =
     (if warming s = 0 then None
      else Some (s\<lparr>pool := warmup_done (pool s) cr, warming := warming s - 1\<rparr>))"
| "step s (CleanupTick now) =
     (case cleanup (pool s) (heap s) now of (p', d) \<Rightarrow> Some (s\<lparr>pool := p'\<rparr>))"
| "step s CloseCall =
     (case Close_lock (pool s) of (p', d) \<Rightarrow> Some (s\<lparr>pool := p'\<rparr>))"

fun run :: "World \<Rightarrow> event list \<Rightarrow> World option" where
  "run s [] = Some s"
| "run s (e # es) = (case step s e of None \<Rightarrow> None | Some s' \<Rightarrow> run s' es)"

text \<open>The states a pool made by \<^verbatim>\<open>NewPool c\<close> can be in.\<close>

definition reachable :: "PoolConfig \<Rightarrow> World \<Rightarrow> bool" where
  "reachable c s = (\<exists>p h es. NewPool c = Some p \<and> run (init_world h p) es = Some s)"

text \<open>\<^verbatim>\<open>Create\<close> of a Docker runtime, as the pool sees it through the interface.\<close>

definition docker_create ::
  "DockerRuntime \<Rightarrow> time \<Rightarrow> create_io \<Rightarrow> Config \<Rightarrow> Heap \<Rightarrow> (error + ref) \<times> Heap" where
  "docker_create r now io c h = (case rt_Create r h now c io of (res, r', h') \<Rightarrow> (res, h'))"

text \<open>The invariant of the pool's bookkeeping.\<close>

definition pool_inv :: "PoolConfig \<Rightarrow> World \<Rightarrow> bool" where
  "pool_inv c s =
     (config (pool s) = c \<and> distinct (map fst (active (pool s)))
      \<and> creating (pool s) = int (acquiring s + warming s)
      \<and> totalCount (pool s) \<le> MaxSize c)"

definition pc1 :: PoolConfig where
  "pc1 = \<lparr>MinSize = 0, MaxSize = 2, WarmupSize = 1, IdleTimeout = 1800,
           CleanupInterval = 300, SandboxConfig = cfg0\<rparr>"

definition p_new :: Pool where
  "p_new = \<lparr>config = pc1, idle = [], active = [], creating = 0, closed = False\<rparr>"

text \<open>A pool whose warmup has made sandbox 0 and whose first caller has acquired it.\<close>

definition w_busy :: World where
  "w_busy = \<lparr>heap = assign h1 0 (\<lambda>x. x\<lparr>Status := StatusActive, LastActiveAt := 12\<rparr>),
             pool = p_new\<lparr>active := [(''ab12cd34'', 0)]\<rparr>,
             acquiring = 0, spawned = 0, warming = 0\<rparr>"

text \<open>
  A pool closed while a warmup creator was waiting for \<^verbatim>\<open>Create\<close>: the creator
  comes back after \<^verbatim>\<open>Close\<close> has emptied the collections and appends its sandbox.
\<close>

definition w_closed :: World where
  "w_closed = \<lparr>heap = h1, pool = p_new\<lparr>closed := True, idle := [0]\<rparr>,
               acquiring = 0, spawned = 0, warming = 0\<rparr>"

definition no_create :: "Heap \<Rightarrow> (error + ref) \<times> Heap" where
  "no_create h = (Inl (ErrBackend ''unreachable''), h)"

section \<open>Listing files (helpers.go, docker.go)\<close>


























section \<open>Package session: data model, store and cache\<close>

datatype SessionStatus = SessionStatusActive | SessionStatusPaused | SessionStatusExpired

text \<open>
  \<^verbatim>\<open>Session\<close>. Fields whose Go names are also names of package sandbox carry the
  prefix \<open>Session\<close>; \<^verbatim>\<open>PausedAt *time.Time\<close> is an option.
\<close>

record Session =
  SessionID :: string
  UserID :: string
  SandboxID :: string
  SessionStatus :: SessionStatus
  WorkspaceURL :: string
  SessionImage :: string
  SessionCPUCount :: int
  SessionMemoryMB :: int
  SessionCreatedAt :: time
  UpdatedAt :: time
  SessionLastActiveAt :: time
  ExpiresAt :: time
  PausedAt :: "time option"
  Metadata :: "(string \<times> string) list"

record CreateSessionRequest =
  reqUserID :: string
  reqImage :: string
  reqCPUCount :: int
  reqMemoryMB :: int
  reqTTL :: int
  reqMetadata :: "(string \<times> string) list"

datatype session_error =
  SessionNotFound string
  | SessionExpired string
  | SessionNotActive SessionStatus
  | NoSandboxBound
  | SessionNotPaused SessionStatus
  | DuplicateKey string
  | StoreUnavailable
  | ArchiveError string
  | WrappedS string session_error

text \<open>\<^verbatim>\<open>IsExpired\<close>: \<^verbatim>\<open>time.Now().After(s.ExpiresAt)\<close>.\<close>

definition IsExpired :: "Session \<Rightarrow> time \<Rightarrow> bool" where
  "IsExpired s now = (now > ExpiresAt s)"

definition IsActive :: "Session \<Rightarrow> time \<Rightarrow> bool" where
  "IsActive s now = (SessionStatus s = SessionStatusActive \<and> \<not> IsExpired s now)"

text \<open>
  The store is the table of \<^verbatim>\<open>PostgresStore\<close>: one row per primary key, read and
  written as copies. \<^verbatim>\<open>Metadata\<close> is tagged \<^verbatim>\<open>gorm:"-"\<close> and is not part of
  a row. \<^verbatim>\<open>Create\<close> is an insert and fails on a key that exists; \<^verbatim>\<open>Update\<close>
  stamps \<^verbatim>\<open>UpdatedAt\<close> and saves the row whether or not it existed. While the
  database is \<open>unavailable\<close> every call returns an error and changes nothing.
\<close>

record Store =
  rows :: "string \<rightharpoonup> Session"
  unavailable :: bool

definition as_row :: "Session \<Rightarrow> Session" where
  "as_row s = s\<lparr>Metadata := []\<rparr>"

definition store_Create :: "Store \<Rightarrow> Session \<Rightarrow> session_error + Store" where
  "store_Create st s =
     (if unavailable st then Inl StoreUnavailable
      else if rows st (SessionID s) \<noteq> None then Inl (DuplicateKey (SessionID s))
      else Inr (st\<lparr>rows := (rows st)(SessionID s \<mapsto> as_row s)\<rparr>))"

definition store_Get :: "Store \<Rightarrow> string \<Rightarrow> session_error + Session" where
  "store_Get st sid =
     (if unavailable st then Inl StoreUnavailable
      else (case rows st sid of None \<Rightarrow> Inl (SessionNotFound sid) | Some s \<Rightarrow> Inr s))"

definition store_Update :: "Store \<Rightarrow> time \<Rightarrow> Session \<Rightarrow> session_error + Store" where
  "store_Update st now s =
     (if unavailable st then Inl StoreUnavailable
      else Inr (st\<lparr>rows := (rows st)(SessionID s \<mapsto> as_row (s\<lparr>UpdatedAt := now\<rparr>))\<rparr>))"

definition store_Delete :: "Store \<Rightarrow> string \<Rightarrow> session_error + Store" where
  "store_Delete st sid =
     (if unavailable st then Inl StoreUnavailable
      else Inr (st\<lparr>rows := (rows st)(sid := None)\<rparr>))"

text \<open>
  The cache is \<^verbatim>\<open>RedisCache\<close>: under each key a copy of the session (its JSON) and
  the instant at which the key expires, the time of the write plus the ttl given.
  \<^verbatim>\<open>Set\<close> and \<^verbatim>\<open>Touch\<close> replace a ttl of 0 by the cache's default. A key is
  visible until its instant is reached. The cache is idealised in three respects, none
  of which the manager reaches with a ttl that is a positive whole number of seconds:
  the Redis client rounds a ttl (to milliseconds in \<^verbatim>\<open>Set\<close>, to seconds in
  \<^verbatim>\<open>Touch\<close>, and up to one unit when it is shorter); with a negative ttl, which
  only \<^verbatim>\<open>Create\<close> can pass, the client writes the key without an expiry, where the
  model writes an entry that is never visible; and a command to the cache never fails
  here (the manager ignores or only logs such a failure).
\<close>

record Cache =
  entries :: "string \<rightharpoonup> Session \<times> time"
  cache_ttl :: int

definition cache_Get :: "Cache \<Rightarrow> time \<Rightarrow> string \<Rightarrow> Session option" where
  "cache_Get c now sid =
     (case entries c sid of
        None \<Rightarrow> None
      | Some (s, deadline) \<Rightarrow> if now < deadline then Some s else None)"

definition cache_Set :: "Cache \<Rightarrow> time \<Rightarrow> Session \<Rightarrow> int \<Rightarrow> Cache" where
  "cache_Set c now s ttl =
     (let ttl' = (if ttl = 0 then cache_ttl c else ttl)
      in c\<lparr>entries := (entries c)(SessionID s \<mapsto> (s, now + ttl'))\<rparr>)"

definition cache_Delete :: "Cache \<Rightarrow> string \<Rightarrow> Cache" where
  "cache_Delete c sid = c\<lparr>entries := (entries c)(sid := None)\<rparr>"

definition cache_Touch :: "Cache \<Rightarrow> time \<Rightarrow> string \<Rightarrow> int \<Rightarrow> Cache" where
  "cache_Touch c now sid ttl =
     (let ttl' = (if ttl = 0 then cache_ttl c else ttl)
      in case cache_Get c now sid of
           None \<Rightarrow> c
         | Some s \<Rightarrow> c\<lparr>entries := (entries c)(sid \<mapsto> (s, now + ttl'))\<rparr>)"

section \<open>DefaultManager (session manager)\<close>

text \<open>
  The cache is optional (\<open>None\<close> is the nil interface); \<open>workspaceStorage\<close> says
  whether an archive is configured. What the archive answers is an input of the call
  that asks it.
\<close>

record DefaultManager =
  store :: Store
  cache :: "Cache option"
  workspaceStorage :: bool
  defaultTTL :: int
  maxTTL :: int
  cleanupInterval :: int

record ManagerConfig =
  DefaultTTL :: int
  MaxTTL :: int
  mcCleanupInterval :: int

definition NewManager :: "Store \<Rightarrow> Cache option \<Rightarrow> bool \<Rightarrow> ManagerConfig \<Rightarrow> DefaultManager" where
  "NewManager st c ws mc =
     \<lparr>store = st, cache = c, workspaceStorage = ws, defaultTTL = DefaultTTL mc,
      maxTTL = MaxTTL mc, cleanupInterval = mcCleanupInterval mc\<rparr>"

text \<open>The ttl that \<^verbatim>\<open>Create\<close> determines: first the default, then the cap.\<close>

definition create_ttl :: "DefaultManager \<Rightarrow> CreateSessionRequest \<Rightarrow> int" where
  "create_ttl m req =
     (let ttl = reqTTL req;
          ttl = (if ttl = 0 then defaultTTL m else ttl);
          ttl = (if ttl > maxTTL m then maxTTL m else ttl)
      in ttl)"

text \<open>\<^verbatim>\<open>Create\<close>; \<open>uuid\<close> is what \<^verbatim>\<open>uuid.New().String()\<close> returns.\<close>

definition Create ::
  "DefaultManager \<Rightarrow> time \<Rightarrow> string \<Rightarrow> CreateSessionRequest
     \<Rightarrow> (session_error + Session) \<times> DefaultManager" where
  "Create m now uuid req =
     (let ttl = create_ttl m req;
          session = \<lparr>SessionID = uuid, UserID = reqUserID req, SandboxID = [],
                     SessionStatus = SessionStatusActive, WorkspaceURL = [],
                     SessionImage = (if reqImage req = [] then ''python:3.11-slim'' else reqImage req),
                     SessionCPUCount = (if reqCPUCount req = 0 then 2 else reqCPUCount req),
                     SessionMemoryMB = (if reqMemoryMB req = 0 then 2048 else reqMemoryMB req),
                     SessionCreatedAt = now, UpdatedAt = now, SessionLastActiveAt = now,
                     ExpiresAt = now + ttl, PausedAt = None, Metadata = reqMetadata req\<rparr>
      in case store_Create (store m) session of
           Inl e \<Rightarrow> (Inl (WrappedS ''failed to create session'' e), m)
         | Inr st' \<Rightarrow>
             (Inr session,
              m\<lparr>store := st', cache := map_option (\<lambda>c. cache_Set c now session ttl) (cache m)\<rparr>))"

definition cache_refresh :: "Cache option \<Rightarrow> time \<Rightarrow> Session \<Rightarrow> Cache option" where
  "cache_refresh co now s =
     map_option (\<lambda>c. let ttl = ExpiresAt s - now in if ttl > 0 then cache_Set c now s ttl else c) co"

definition Get :: "DefaultManager \<Rightarrow> time \<Rightarrow> string \<Rightarrow> (session_error + Session) \<times> DefaultManager" where
  "Get m now sid =
     (case (case cache m of None \<Rightarrow> None | Some c \<Rightarrow> cache_Get c now sid) of
        Some session \<Rightarrow> (Inr session, m)
      | None \<Rightarrow>
          (case store_Get (store m) sid of
             Inl e \<Rightarrow> (Inl e, m)
           | Inr session \<Rightarrow>
               if IsExpired session now then (Inl (SessionExpired sid), m)
               else (Inr session, m\<lparr>cache := cache_refresh (cache m) now session\<rparr>)))"

definition Update :: "DefaultManager \<Rightarrow> time \<Rightarrow> Session \<Rightarrow> session_error option \<times> DefaultManager" where
  "Update m now session0 =
     (let session = session0\<lparr>UpdatedAt := now\<rparr> in
      case store_Update (store m) now session of
        Inl e \<Rightarrow> (Some e, m)
      | Inr st' \<Rightarrow> (None, m\<lparr>store := st', cache := cache_refresh (cache m) now session\<rparr>))"

text \<open>
  \<^verbatim>\<open>Delete\<close>. The archive is asked to delete the workspace first; the code only
  logs what it answers.
\<close>

definition Delete :: "DefaultManager \<Rightarrow> string \<Rightarrow> session_error option \<times> DefaultManager" where
  "Delete m sid =
     (let m1 = m\<lparr>cache := map_option (\<lambda>c. cache_Delete c sid) (cache m)\<rparr> in
      case store_Delete (store m1) sid of
        Inl e \<Rightarrow> (Some e, m1)
      | Inr st' \<Rightarrow> (None, m1\<lparr>store := st'\<rparr>))"

text \<open>
  \<^verbatim>\<open>Pause\<close>; \<open>save\<close> is what \<^verbatim>\<open>workspaceStorage.Save\<close> returns when it is
  called.
\<close>

definition Pause ::
  "DefaultManager \<Rightarrow> time \<Rightarrow> string \<Rightarrow> session_error + string
     \<Rightarrow> session_error option \<times> DefaultManager" where
  "Pause m now sid save =
     (case Get m now sid of
        (Inl e, m1) \<Rightarrow> (Some e, m1)
      | (Inr session, m1) \<Rightarrow>
          if SessionStatus session \<noteq> SessionStatusActive
          then (Some (SessionNotActive (SessionStatus session)), m1)
          else if SandboxID session = [] then (Some NoSandboxBound, m1)
          else
            (case (if workspaceStorage m1
                   then (case save of
                           Inl e \<Rightarrow> Inl (WrappedS ''failed to save workspace'' e)
                         | Inr workspaceURL \<Rightarrow> Inr (session\<lparr>WorkspaceURL := workspaceURL\<rparr>))
                   else Inr session) of
               Inl e \<Rightarrow> (Some e, m1)
             | Inr session1 \<Rightarrow>
                 Update m1 now
                   (session1\<lparr>SessionStatus := SessionStatusPaused, PausedAt := Some now,
                             SandboxID := []\<rparr>)))"

definition Resume :: "DefaultManager \<Rightarrow> time \<Rightarrow> string \<Rightarrow> (session_error + Session) \<times> DefaultManager" where
  "Resume m now sid =
     (case Get m now sid of
        (Inl e, m1) \<Rightarrow> (Inl e, m1)
      | (Inr session, m1) \<Rightarrow>
          if SessionStatus session \<noteq> SessionStatusPaused
          then (Inl (SessionNotPaused (SessionStatus session)), m1)
          else
            (let session1 = session\<lparr>SessionStatus := SessionStatusActive, PausedAt := None,
                                    SessionLastActiveAt := now,
                                    ExpiresAt := now + defaultTTL m1\<rparr> in
             case Update m1 now session1 of
               (Some e, m2) \<Rightarrow> (Inl e, m2)
             | (None, m2) \<Rightarrow> (Inr (session1\<lparr>UpdatedAt := now\<rparr>), m2)))"

definition Touch :: "DefaultManager \<Rightarrow> time \<Rightarrow> string \<Rightarrow> session_error option \<times> DefaultManager" where
  "Touch m now sid =
     (case Get m now sid of
        (Inl e, m1) \<Rightarrow> (Some e, m1)
      | (Inr session, m1) \<Rightarrow>
          (let session1 = session\<lparr>SessionLastActiveAt := now\<rparr> in
           case store_Update (store m1) now session1 of
             Inl e \<Rightarrow> (Some e, m1)
           | Inr st' \<Rightarrow>
               (None,
                m1\<lparr>store := st',
                   cache := map_option
                     (\<lambda>c. let ttl = ExpiresAt session1 - now
                          in if ttl > 0 then cache_Touch c now sid ttl else c) (cache m1)\<rparr>)))"

definition BindSandbox ::
  "DefaultManager \<Rightarrow> time \<Rightarrow> string \<Rightarrow> string \<Rightarrow> session_error option \<times> DefaultManager" where
  "BindSandbox m now sessionID sandboxID =
     (case Get m now sessionID of
        (Inl e, m1) \<Rightarrow> (Some e, m1)
      | (Inr session, m1) \<Rightarrow>
          Update m1 now (session\<lparr>SandboxID := sandboxID, SessionLastActiveAt := now\<rparr>))"

definition UnbindSandbox ::
  "DefaultManager \<Rightarrow> time \<Rightarrow> string \<Rightarrow> session_error option \<times> DefaultManager" where
  "UnbindSandbox m now sessionID =
     (case Get m now sessionID of
        (Inl e, m1) \<Rightarrow> (Some e, m1)
      | (Inr session, m1) \<Rightarrow> Update m1 now (session\<lparr>SandboxID := []\<rparr>))"

subsection \<open>Sequences of manager calls\<close>

text \<open>
  A call of the manager with its arguments; \<open>OpOutage\<close> is the database going away
  or coming back. Each call comes with the time at which it is made.
\<close>

datatype mgr_op =
  OpCreate string CreateSessionRequest
  | OpGet string
  | OpUpdate Session
  | OpDelete string
  | OpPause string "session_error + string"
  | OpResume string
  | OpTouch string
  | OpBindSandbox string string
  | OpUnbindSandbox string
  | OpOutage bool

fun mgr_step :: "DefaultManager \<Rightarrow> time \<times> mgr_op \<Rightarrow> DefaultManager" where
  "mgr_step m (now, OpCreate uuid req) = snd (Create m now uuid req)"
| "mgr_step m (now, OpGet sid) = snd (Get m now sid)"
| "mgr_step m (now, OpUpdate x) = snd (Update m now x)"
| "mgr_step m (now, OpDelete sid) = snd (Delete m sid)"
| "mgr_step m (now, OpPause sid save) = snd (Pause m now sid save)"
| "mgr_step m (now, OpResume sid) = snd (Resume m now sid)"
| "mgr_step m (now, OpTouch sid) = snd (Touch m now sid)"
| "mgr_step m (now, OpBindSandbox sid sandboxID) = snd (BindSandbox m now sid sandboxID)"
| "mgr_step m (now, OpUnbindSandbox sid) = snd (UnbindSandbox m now sid)"
| "mgr_step m (now, OpOutage b) = m\<lparr>store := (store m)\<lparr>unavailable := b\<rparr>\<rparr>"

fun mgr_run :: "DefaultManager \<Rightarrow> (time \<times> mgr_op) list \<Rightarrow> DefaultManager" where
  "mgr_run m [] = m"
| "mgr_run m (e # es) = mgr_run (mgr_step m e) es"

text \<open>The invariant of a session record, and of every record the manager holds.\<close>

definition paused_ok :: "Session \<Rightarrow> bool" where
  "paused_ok x = (SessionStatus x = SessionStatusPaused \<longrightarrow> SandboxID x = [] \<and> PausedAt x \<noteq> None)"

definition rows_ok :: "Store \<Rightarrow> bool" where
  "rows_ok st = (\<forall>sid x. rows st sid = Some x \<longrightarrow> paused_ok x)"

definition cache_ok :: "Cache \<Rightarrow> bool" where
  "cache_ok c = (\<forall>sid x d. entries c sid = Some (x, d) \<longrightarrow> paused_ok x)"

definition mgr_inv :: "DefaultManager \<Rightarrow> bool" where
  "mgr_inv m = (rows_ok (store m) \<and> (case cache m of None \<Rightarrow> True | Some c \<Rightarrow> cache_ok c))"

text \<open>
  The two calls that write what the caller gives them without looking at the status:
  \<^verbatim>\<open>Update\<close> with a snapshot, and \<^verbatim>\<open>BindSandbox\<close> with a sandbox id. A call is
  \<open>checked\<close> when the snapshot given to \<^verbatim>\<open>Update\<close> satisfies the invariant and
  when \<^verbatim>\<open>BindSandbox\<close> is given the empty id or a session that it does not read as
  paused.
\<close>

fun checked :: "DefaultManager \<Rightarrow> time \<times> mgr_op \<Rightarrow> bool" where
  "checked m (now, OpUpdate x) = paused_ok x"
| "checked m (now, OpBindSandbox sid sandboxID) =
     (sandboxID = [] \<or>
      (case fst (Get m now sid) of
         Inl e \<Rightarrow> True
       | Inr x \<Rightarrow> SessionStatus x \<noteq> SessionStatusPaused))"
| "checked m (now, other) = True"

fun all_checked :: "DefaultManager \<Rightarrow> (time \<times> mgr_op) list \<Rightarrow> bool" where
  "all_checked m [] = True"
| "all_checked m (e # es) = (checked m e \<and> all_checked (mgr_step m e) es)"

text \<open>
  The kind \<^verbatim>\<open>InvalidState\<close> of the specification: the errors that \<^verbatim>\<open>Pause\<close>
  and \<^verbatim>\<open>Resume\<close> build when the session is not in the state they need.
\<close>

definition InvalidState :: "session_error \<Rightarrow> bool" where
  "InvalidState e =
     (case e of
        SessionNotActive st \<Rightarrow> True
      | NoSandboxBound \<Rightarrow> True
      | SessionNotPaused st \<Rightarrow> True
      | _ \<Rightarrow> False)"

text \<open>What the cache answers, if there is one.\<close>

definition cache_lookup :: "DefaultManager \<Rightarrow> time \<Rightarrow> string \<Rightarrow> Session option" where
  "cache_lookup m now sid = (case cache m of None \<Rightarrow> None | Some c \<Rightarrow> cache_Get c now sid)"

definition mc0 :: ManagerConfig where
  "mc0 = \<lparr>DefaultTTL = 86400, MaxTTL = 604800, mcCleanupInterval = 3600\<rparr>"

definition m0 :: DefaultManager where
  "m0 = NewManager \<lparr>rows = Map.empty, unavailable = False\<rparr>
          (Some \<lparr>entries = Map.empty, cache_ttl = 86400\<rparr>) True mc0"

definition creq0 :: CreateSessionRequest where
  "creq0 = \<lparr>reqUserID = ''u1'', reqImage = [], reqCPUCount = 0, reqMemoryMB = 0,
             reqTTL = 3600, reqMetadata = []\<rparr>"

text \<open>The session that \<^verbatim>\<open>Create\<close> makes of \<open>creq0\<close> at time 0 under the id \<open>s1\<close>.\<close>

definition x_new :: Session where
  "x_new = \<lparr>SessionID = ''s1'', UserID = ''u1'', SandboxID = [],
            SessionStatus = SessionStatusActive, WorkspaceURL = [],
            SessionImage = ''python:3.11-slim'', SessionCPUCount = 2, SessionMemoryMB = 2048,
            SessionCreatedAt = 0, UpdatedAt = 0, SessionLastActiveAt = 0, ExpiresAt = 3600,
            PausedAt = None, Metadata = []\<rparr>"

text \<open>The same session after \<^verbatim>\<open>BindSandbox\<close> at time 1.\<close>

definition x_bound :: Session where
  "x_bound = x_new\<lparr>SandboxID := ''sb1'', SessionLastActiveAt := 1, UpdatedAt := 1\<rparr>"

definition ops_bound :: "(time \<times> mgr_op) list" where
  "ops_bound = [(0, OpCreate ''s1'' creq0), (1, OpBindSandbox ''s1'' ''sb1'')]"

definition ops_paused :: "(time \<times> mgr_op) list" where
  "ops_paused = ops_bound @ [(2, OpPause ''s1'' (Inr ''workspaces/s1/workspace.tar.gz''))]"

definition ops_rebound :: "(time \<times> mgr_op) list" where
  "ops_rebound = ops_paused @ [(3, OpBindSandbox ''s1'' ''sb2'')]"

definition ops_overwritten :: "(time \<times> mgr_op) list" where
  "ops_overwritten =
     [(0, OpCreate ''s1'' creq0),
      (1, OpUpdate (x_new\<lparr>SessionStatus := SessionStatusPaused, SandboxID := ''sb1''\<rparr>))]"

definition ops_stale :: "(time \<times> mgr_op) list" where
  "ops_stale = [(0, OpCreate ''s1'' creq0), (10, OpUpdate (x_new\<lparr>ExpiresAt := 5\<rparr>))]"

definition m_cap :: DefaultManager where
  "m_cap = NewManager \<lparr>rows = Map.empty, unavailable = False\<rparr> None False
             \<lparr>DefaultTTL = 10, MaxTTL = 5, mcCleanupInterval = 3600\<rparr>"

text \<open>
  Two runs that leave the cache behind the store. In the first, the caller stores a
  paused snapshot of the bound session that ends at time 2, at time 2: no time is left,
  so \<^verbatim>\<open>Update\<close> does not write the cache. In the second, \<^verbatim>\<open>Touch\<close> at time 5
  writes the new \<^verbatim>\<open>last_active_at\<close> to the store and only renews the ttl of the
  cached copy.
\<close>

definition ops_stale_paused :: "(time \<times> mgr_op) list" where
  "ops_stale_paused =
     ops_bound @ [(2, OpUpdate (x_bound\<lparr>SessionStatus := SessionStatusPaused, SandboxID := [],
                                   PausedAt := Some 2, ExpiresAt := 2\<rparr>))]"

definition x_paused2 :: Session where
  "x_paused2 = x_bound\<lparr>SessionStatus := SessionStatusPaused, SandboxID := [],
                       PausedAt := Some 2, ExpiresAt := 2, UpdatedAt := 2\<rparr>"

definition ops_touched :: "(time \<times> mgr_op) list" where
  "ops_touched = ops_bound @ [(5, OpTouch ''s1'')]"

text \<open>
  The cache agrees with the stored record \<open>x\<close> of a session on what \<^verbatim>\<open>Pause\<close>
  tests: it has no live entry for the id, or its entry has the id, the status and the
  sandbox id of \<open>x\<close>.
\<close>

definition cache_agrees :: "DefaultManager \<Rightarrow> time \<Rightarrow> string \<Rightarrow> Session \<Rightarrow> bool" where
  "cache_agrees m now sid x =
     (case cache_lookup m now sid of
        None \<Rightarrow> True
      | Some y \<Rightarrow> SessionID y = SessionID x \<and> SessionStatus y = SessionStatus x
                  \<and> SandboxID y = SandboxID x)"

text \<open>
  Output frames for the cap of 4 bytes: five bytes of standard output followed by two
  of standard error, and the same with two bytes of standard output.
\<close>

definition frames_split :: "(StdType \<times> string) list" where
  "frames_split = [(StdoutStream, ''hello''), (StderrStream, ''hi'')]"

definition frames_short :: "(StdType \<times> string) list" where
  "frames_short = [(StdoutStream, ''hi''), (StderrStream, ''hi'')]"

section \<open>Output capture: the cap on each stream\<close>

lemma lw_ok_new: "0 \<le> l \<Longrightarrow> lw_ok (new_limitedWriter l)"
  by (simp add: lw_ok_def new_limitedWriter_def)

lemma lw_Write_ok:
  assumes "lw_ok lw" and "lw_Write lw p = (r, lw')"
  shows "lw_ok lw'"
  using assms
  by (auto simp: lw_ok_def lw_Write_def Let_def min_def split: if_splits)

lemma lw_Write_limit: "lw_Write lw p = (r, lw') \<Longrightarrow> limit lw' = limit lw"
  by (auto simp: lw_Write_def Let_def split: if_splits)

lemma lw_Write_no_error: "lw_Write lw p = ((n, e), lw') \<Longrightarrow> e = None"
  by (auto simp: lw_Write_def Let_def split: if_splits)

lemma StdCopy_ok:
  "lw_ok o1 \<Longrightarrow> lw_ok e1 \<Longrightarrow> StdCopy o1 e1 frames = (r, o2, e2)
     \<Longrightarrow> lw_ok o2 \<and> lw_ok e2 \<and> limit o2 = limit o1 \<and> limit e2 = limit e1"
proof (induction frames arbitrary: o1 e1)
  case Nil
  then show ?case by simp
next
  case (Cons f frames)
  obtain t payload where f: "f = (t, payload)" by (cases f)
  show ?case
  proof (cases "t = Systemerr")
    case True
    with Cons.prems f show ?thesis by simp
  next
    case False
    show ?thesis
    proof (cases "t = StderrStream")
      case True
      obtain nw ew e' where w: "lw_Write e1 payload = ((nw, ew), e')"
        by (metis prod.exhaust)
      have ok: "lw_ok e'" and lim: "limit e' = limit e1"
        using lw_Write_ok [OF Cons.prems(2) w] lw_Write_limit [OF w] by simp_all
      show ?thesis
      proof (cases "ew \<noteq> None \<or> nw \<noteq> int (length payload)")
        case True
        with Cons.prems f \<open>t = StderrStream\<close> w ok lim show ?thesis
          by (auto split: if_splits)
      next
        case False
        with Cons.prems(3) f \<open>t = StderrStream\<close> w
        have "StdCopy o1 e' frames = (r, o2, e2)" by simp
        from Cons.IH [OF Cons.prems(1) ok this] lim show ?thesis by simp
      qed
    next
      case False
      obtain nw ew o' where w: "lw_Write o1 payload = ((nw, ew), o')"
        by (metis prod.exhaust)
      have ok: "lw_ok o'" and lim: "limit o' = limit o1"
        using lw_Write_ok [OF Cons.prems(1) w] lw_Write_limit [OF w] by simp_all
      from False \<open>t \<noteq> Systemerr\<close> have t: "t = StdinStream \<or> t = StdoutStream"
        by (cases t) simp_all
      show ?thesis
      proof (cases "ew \<noteq> None \<or> nw \<noteq> int (length payload)")
        case True
        with Cons.prems f t w ok lim show ?thesis
          by (auto split: if_splits)
      next
        case False
        with Cons.prems(3) f t w
        have "StdCopy o' e1 frames = (r, o2, e2)" by auto
        from Cons.IH [OF ok Cons.prems(2) this] lim show ?thesis by simp
      qed
    qed
  qed
qed

lemma exec_body_cap:
  assumes "0 \<le> MaxOutputSize c" and "exec_body c io = Inr res"
  shows "int (length (Stdout res)) \<le> MaxOutputSize c \<and> int (length (Stderr res)) \<le> MaxOutputSize c"
proof -
  obtain ce so se where sc:
    "StdCopy (new_limitedWriter (MaxOutputSize c)) (new_limitedWriter (MaxOutputSize c)) (Frames io)
       = (ce, so, se)"
    by (metis prod.exhaust)
  have ok: "lw_ok so \<and> lw_ok se \<and> limit so = MaxOutputSize c \<and> limit se = MaxOutputSize c"
    using StdCopy_ok [OF lw_ok_new [OF assms(1)] lw_ok_new [OF assms(1)] sc]
    by (simp add: new_limitedWriter_def)
  from assms(2) sc have "Stdout res = buf so" and "Stderr res = buf se"
    by (auto simp: exec_body_def split: sum.splits option.splits)
  with ok show ?thesis by (simp add: lw_ok_def)
qed

lemma exec_body_succeeds:
  assumes "ContainerExecCreate io = Inr x" and "ContainerExecAttach io = None"
    and "ContainerExecInspect io = Inr code"
  shows "\<exists>res. exec_body c io = Inr res \<and> ExitCode res = code"
proof -
  obtain ce so se where sc:
    "StdCopy (new_limitedWriter (MaxOutputSize c)) (new_limitedWriter (MaxOutputSize c)) (Frames io)
       = (ce, so, se)"
    by (metis prod.exhaust)
  with assms show ?thesis by (simp add: exec_body_def)
qed

lemma stream_bytes_Cons:
  "stream_bytes err ((t, p) # fs) =
     (if t \<noteq> Systemerr \<and> (t = StderrStream) = err then p @ stream_bytes err fs
      else stream_bytes err fs)"
  by (simp add: stream_bytes_def)

lemma lw_Write_cases:
  assumes "lw_Write lw p = ((nw, ew), lw')"
  shows "ew = None \<and>
         ((nw = int (length p) \<and> (lw' = lw \<and> written lw \<ge> limit lw \<or> buf lw' = buf lw @ p))
          \<or> (nw \<noteq> int (length p) \<and> (\<exists>k. buf lw' = buf lw @ take k p)))"
  using assms
  by (auto simp: lw_Write_def Let_def split: if_splits)

lemma StdCopy_frozen_out:
  "written o1 \<ge> limit o1 \<Longrightarrow> StdCopy o1 e1 frames = (r, o2, e2) \<Longrightarrow> o2 = o1"
proof (induction frames arbitrary: e1)
  case Nil
  then show ?case by simp
next
  case (Cons f frames)
  obtain t p where f: "f = (t, p)" by (cases f)
  have w: "lw_Write o1 p = ((int (length p), None), o1)"
    using Cons.prems(1) by (simp add: lw_Write_def)
  show ?case
  proof (cases t)
    case StderrStream
    obtain nw ew e' where e: "lw_Write e1 p = ((nw, ew), e')" by (metis prod.exhaust)
    with Cons f StderrStream show ?thesis by (auto split: if_splits)
  next
    case Systemerr
    with Cons f show ?thesis by simp
  next
    case StdinStream
    with Cons f w show ?thesis by simp
  next
    case StdoutStream
    with Cons f w show ?thesis by simp
  qed
qed

lemma StdCopy_frozen_err:
  "written e1 \<ge> limit e1 \<Longrightarrow> StdCopy o1 e1 frames = (r, o2, e2) \<Longrightarrow> e2 = e1"
proof (induction frames arbitrary: o1)
  case Nil
  then show ?case by simp
next
  case (Cons f frames)
  obtain t p where f: "f = (t, p)" by (cases f)
  have w: "lw_Write e1 p = ((int (length p), None), e1)"
    using Cons.prems(1) by (simp add: lw_Write_def)
  obtain nw ew o' where o: "lw_Write o1 p = ((nw, ew), o')" by (metis prod.exhaust)
  show ?case
  proof (cases t)
    case StderrStream
    with Cons f w show ?thesis by simp
  next
    case Systemerr
    with Cons f show ?thesis by simp
  next
    case StdinStream
    with Cons f o show ?thesis by (auto split: if_splits)
  next
    case StdoutStream
    with Cons f o show ?thesis by (auto split: if_splits)
  qed
qed

lemma StdCopy_prefix:
  "StdCopy o1 e1 frames = (r, o2, e2) \<Longrightarrow>
     (\<exists>q. buf o1 @ stream_bytes False frames = buf o2 @ q)
     \<and> (\<exists>q. buf e1 @ stream_bytes True frames = buf e2 @ q)"
proof (induction frames arbitrary: o1 e1)
  case Nil
  then show ?case by (simp add: stream_bytes_def)
next
  case (Cons f frames)
  obtain t p where f: "f = (t, p)" by (cases f)
  show ?case
  proof (cases "t = Systemerr")
    case True
    with Cons.prems f show ?thesis by (simp add: stream_bytes_Cons)
  next
    case ns: False
    show ?thesis
    proof (cases "t = StderrStream")
      case True
      obtain nw ew e' where w: "lw_Write e1 p = ((nw, ew), e')" by (metis prod.exhaust)
      note c = lw_Write_cases [OF w]
      show ?thesis
      proof (cases "nw = int (length p)")
        case False
        with c obtain k where k: "buf e' = buf e1 @ take k p" by auto
        from Cons.prems f True w c False have eq: "o2 = o1" "e2 = e'" by auto
        have 1: "buf o1 @ stream_bytes False (f # frames) = buf o2 @ stream_bytes False frames"
          using eq f True by (simp add: stream_bytes_Cons)
        have 2: "buf e1 @ stream_bytes True (f # frames)
                   = buf e2 @ (drop k p @ stream_bytes True frames)"
          using eq f True k by (simp add: stream_bytes_Cons)
        from 1 2 show ?thesis by blast
      next
        case full: True
        with Cons.prems f True w c have rest: "StdCopy o1 e' frames = (r, o2, e2)" by auto
        note ih = Cons.IH [OF rest]
        from c full have "e' = e1 \<and> written e1 \<ge> limit e1 \<or> buf e' = buf e1 @ p" by auto
        then show ?thesis
        proof
          assume fr: "e' = e1 \<and> written e1 \<ge> limit e1"
          with rest have "e2 = e1" using StdCopy_frozen_err by blast
          with ih f True show ?thesis by (auto simp: stream_bytes_Cons)
        next
          assume "buf e' = buf e1 @ p"
          with ih f True show ?thesis by (auto simp: stream_bytes_Cons)
        qed
      qed
    next
      case no: False
      obtain nw ew o' where w: "lw_Write o1 p = ((nw, ew), o')" by (metis prod.exhaust)
      note c = lw_Write_cases [OF w]
      from ns no have t: "t = StdinStream \<or> t = StdoutStream" by (cases t) simp_all
      show ?thesis
      proof (cases "nw = int (length p)")
        case False
        with c obtain k where k: "buf o' = buf o1 @ take k p" by auto
        from Cons.prems f t w c False have eq: "o2 = o'" "e2 = e1" by auto
        have 1: "buf o1 @ stream_bytes False (f # frames)
                   = buf o2 @ (drop k p @ stream_bytes False frames)"
          using eq f t k by (auto simp: stream_bytes_Cons)
        have 2: "buf e1 @ stream_bytes True (f # frames) = buf e2 @ stream_bytes True frames"
          using eq f t by (auto simp: stream_bytes_Cons)
        from 1 2 show ?thesis by blast
      next
        case full: True
        with Cons.prems f t w c have rest: "StdCopy o' e1 frames = (r, o2, e2)" by auto
        note ih = Cons.IH [OF rest]
        from c full have "o' = o1 \<and> written o1 \<ge> limit o1 \<or> buf o' = buf o1 @ p" by auto
        then show ?thesis
        proof
          assume fr: "o' = o1 \<and> written o1 \<ge> limit o1"
          with rest have "o2 = o1" using StdCopy_frozen_out by blast
          with ih f t show ?thesis by (auto simp: stream_bytes_Cons)
        next
          assume "buf o' = buf o1 @ p"
          with ih f t show ?thesis by (auto simp: stream_bytes_Cons)
        qed
      qed
    qed
  qed
qed

lemma exec_body_prefix:
  assumes "exec_body c io = Inr res"
  shows "(\<exists>q. stream_bytes False (Frames io) = Stdout res @ q)
       \<and> (\<exists>q. stream_bytes True (Frames io) = Stderr res @ q)"
proof -
  obtain ce so se where sc:
    "StdCopy (new_limitedWriter (MaxOutputSize c)) (new_limitedWriter (MaxOutputSize c)) (Frames io)
       = (ce, so, se)"
    by (metis prod.exhaust)
  from assms sc have "Stdout res = buf so" and "Stderr res = buf se"
    by (auto simp: exec_body_def split: sum.splits option.splits)
  with StdCopy_prefix [OF sc] show ?thesis
    by (simp add: new_limitedWriter_def)
qed

lemma rt_Create_example:
  "rt_Create (NewDockerRuntime cfg0) h0 10 cfg0 cio0 = (Inr 0, r1, h1)"
  by (simp add: r1_def h1_def rt_Create_def cio0_def alloc_def h0_def Let_def)

lemma r1_sandboxes: "sandboxes r1 = [''ab12cd34'' \<mapsto> 0]"
  by (simp add: r1_def rt_Create_def cio0_def alloc_def h0_def Let_def NewDockerRuntime_def)

lemma r1_config: "rt_config r1 = cfg0"
  by (simp add: r1_def rt_Create_def cio0_def alloc_def h0_def Let_def NewDockerRuntime_def)

lemma h1_cell:
  "deref h1 0 = \<lparr>ID = ''ab12cd34'', Status = StatusIdle, ContainerID = ''c0ffee'',
                  Image = ''alpine:latest'', IP = ''172.17.0.2'', CreatedAt = 10,
                  LastActiveAt = 10,
                  Labels = [(labelSandboxID, ''ab12cd34''), (labelManaged, ''true'')]\<rparr>"
  by (simp add: h1_def rt_Create_def cio0_def alloc_def h0_def Let_def deref_def
      merge_config_def cfg0_def NewDockerRuntime_def)

lemma Exec_found:
  "sandboxes r sid = Some a \<Longrightarrow>
     Exec r h now sid req io = (exec_body (rt_config r) io, exec_exit (exec_enter h a now) a)"
  by (simp add: Exec_def rt_Get_def)

lemma Exec_Inr_found:
  "Exec r h now sid req io = (Inr res, h') \<Longrightarrow> \<exists>a. sandboxes r sid = Some a"
  by (auto simp: Exec_def rt_Get_def split: option.splits)

text \<open>
  The part of the cap that the code keeps. Whatever the process writes, a successful
  \<^verbatim>\<open>Exec\<close> returns at most \<^verbatim>\<open>MaxOutputSize\<close> bytes of standard output and at
  most that many of standard error (for a cap that is not negative), and what it returns
  of a stream is a beginning of what the frames carry for that stream. The volume of
  output never turns the call into an error: with any other sequence of output frames the
  same call still succeeds, with the same exit code and the same effect on the sandbox,
  and its two streams are capped in the same way. How long a beginning is returned is
  the subject of the lemmas that follow.
\<close>

lemma Exec_output_cap:
  assumes "0 \<le> MaxOutputSize (rt_config r)"
    and "Exec r h now sid req io = (Inr res, h')"
  shows "int (length (Stdout res)) \<le> MaxOutputSize (rt_config r)
       \<and> int (length (Stderr res)) \<le> MaxOutputSize (rt_config r)
       \<and> (\<exists>rest. stream_bytes False (Frames io) = Stdout res @ rest)
       \<and> (\<exists>rest. stream_bytes True (Frames io) = Stderr res @ rest)
       \<and> (\<forall>fs. \<exists>res'. Exec r h now sid req (io\<lparr>Frames := fs\<rparr>) = (Inr res', h')
              \<and> ExitCode res' = ExitCode res
              \<and> int (length (Stdout res')) \<le> MaxOutputSize (rt_config r)
              \<and> int (length (Stderr res')) \<le> MaxOutputSize (rt_config r))"
proof -
  from assms(2) obtain a where a: "sandboxes r sid = Some a"
    using Exec_Inr_found by blast
  from assms(2) a have body: "exec_body (rt_config r) io = Inr res"
    and h': "h' = exec_exit (exec_enter h a now) a"
    by (simp_all add: Exec_found)
  have cap: "int (length (Stdout res)) \<le> MaxOutputSize (rt_config r)
       \<and> int (length (Stderr res)) \<le> MaxOutputSize (rt_config r)"
    using exec_body_cap [OF assms(1) body] .
  from body obtain x code where io:
    "ContainerExecCreate io = Inr x" "ContainerExecAttach io = None"
    "ContainerExecInspect io = Inr code" "ExitCode res = code"
    by (auto simp: exec_body_def split: sum.splits option.splits prod.splits)
  have "\<exists>res'. Exec r h now sid req (io\<lparr>Frames := fs\<rparr>) = (Inr res', h')
              \<and> ExitCode res' = ExitCode res
              \<and> int (length (Stdout res')) \<le> MaxOutputSize (rt_config r)
              \<and> int (length (Stderr res')) \<le> MaxOutputSize (rt_config r)" for fs
  proof -
    obtain res' where r': "exec_body (rt_config r) (io\<lparr>Frames := fs\<rparr>) = Inr res'"
      and c': "ExitCode res' = code"
      using exec_body_succeeds [of "io\<lparr>Frames := fs\<rparr>" x code "rt_config r"] io by auto
    from exec_body_cap [OF assms(1) r'] r' c' io(4) a h' show ?thesis
      by (simp add: Exec_found)
  qed
  with cap exec_body_prefix [OF body] show ?thesis by blast
qed

lemma Exec_output_cap_example:
  "0 \<le> MaxOutputSize (rt_config r1)
   \<and> Exec r1 h1 20 ''ab12cd34'' req0 eio0
       = (Inr \<lparr>ExitCode = 0, Stdout = ''hell'', Stderr = ''warn'', Duration = 3,
                TimedOut = False, Error = []\<rparr>,
          exec_exit (exec_enter h1 0 20) 0)
   \<and> (\<forall>fs. \<exists>res'. Exec r1 h1 20 ''ab12cd34'' req0 (eio0\<lparr>Frames := fs\<rparr>)
                      = (Inr res', exec_exit (exec_enter h1 0 20) 0)
              \<and> int (length (Stdout res')) \<le> 4 \<and> int (length (Stderr res')) \<le> 4)"
proof -
  have c: "0 \<le> MaxOutputSize (rt_config r1)"
    by (simp add: r1_config cfg0_def)
  have e: "Exec r1 h1 20 ''ab12cd34'' req0 eio0
       = (Inr \<lparr>ExitCode = 0, Stdout = ''hell'', Stderr = ''warn'', Duration = 3,
                TimedOut = False, Error = []\<rparr>,
          exec_exit (exec_enter h1 0 20) 0)"
    by (simp add: Exec_found r1_sandboxes r1_config exec_body_def eio0_def cfg0_def
        new_limitedWriter_def lw_Write_def Let_def)
  from Exec_output_cap [OF c e] c e show ?thesis
    by (simp add: r1_config cfg0_def) blast
qed

text \<open>
  A payload that fits below the cap is appended whole, and output that stays below the
  cap on both streams is returned whole, stream by stream.
\<close>

lemma lw_Write_fits:
  assumes "written lw + int (length p) \<le> limit lw"
  shows "lw_Write lw p
           = ((int (length p), None), lw\<lparr>buf := buf lw @ p, written := written lw + int (length p)\<rparr>)"
proof (cases "written lw \<ge> limit lw")
  case True
  with assms have "int (length p) \<le> 0" by linarith
  hence "p = []" by simp
  with True show ?thesis by (simp add: lw_Write_def)
next
  case False
  with assms show ?thesis by (simp add: lw_Write_def Let_def)
qed

lemma StdCopy_fits:
  "written o1 + int (length (stream_bytes False frames)) \<le> limit o1
   \<Longrightarrow> written e1 + int (length (stream_bytes True frames)) \<le> limit e1
   \<Longrightarrow> Systemerr \<notin> fst ` set frames
   \<Longrightarrow> StdCopy o1 e1 frames
         = (None,
            o1\<lparr>buf := buf o1 @ stream_bytes False frames,
                written := written o1 + int (length (stream_bytes False frames))\<rparr>,
            e1\<lparr>buf := buf e1 @ stream_bytes True frames,
                written := written e1 + int (length (stream_bytes True frames))\<rparr>)"
proof (induction frames arbitrary: o1 e1)
  case Nil
  then show ?case by (simp add: stream_bytes_def)
next
  case (Cons f frames)
  obtain t p where f: "f = (t, p)" by (cases f)
  from Cons.prems(3) f have ns: "t \<noteq> Systemerr" and ns': "Systemerr \<notin> fst ` set frames"
    by auto
  show ?case
  proof (cases "t = StderrStream")
    case True
    with Cons.prems f have fit: "written e1 + int (length p) \<le> limit e1"
      by (simp add: stream_bytes_Cons)
    let ?e = "e1\<lparr>buf := buf e1 @ p, written := written e1 + int (length p)\<rparr>"
    have "StdCopy o1 ?e frames
         = (None,
            o1\<lparr>buf := buf o1 @ stream_bytes False frames,
                written := written o1 + int (length (stream_bytes False frames))\<rparr>,
            ?e\<lparr>buf := buf ?e @ stream_bytes True frames,
                written := written ?e + int (length (stream_bytes True frames))\<rparr>)"
      using Cons.prems f True ns' by (intro Cons.IH) (simp_all add: stream_bytes_Cons)
    with True f lw_Write_fits [OF fit] show ?thesis
      by (simp add: stream_bytes_Cons)
  next
    case False
    with Cons.prems f ns have fit: "written o1 + int (length p) \<le> limit o1"
      by (simp add: stream_bytes_Cons)
    let ?o = "o1\<lparr>buf := buf o1 @ p, written := written o1 + int (length p)\<rparr>"
    have "StdCopy ?o e1 frames
         = (None,
            ?o\<lparr>buf := buf ?o @ stream_bytes False frames,
                written := written ?o + int (length (stream_bytes False frames))\<rparr>,
            e1\<lparr>buf := buf e1 @ stream_bytes True frames,
                written := written e1 + int (length (stream_bytes True frames))\<rparr>)"
      using Cons.prems f False ns ns' by (intro Cons.IH) (simp_all add: stream_bytes_Cons)
    with False ns f lw_Write_fits [OF fit] show ?thesis
      by (cases t) (simp_all add: stream_bytes_Cons)
  qed
qed

lemma Exec_output_whole:
  assumes "sandboxes r sid = Some a"
    and "ContainerExecCreate io = Inr x" and "ContainerExecAttach io = None"
    and "ContainerExecInspect io = Inr code"
    and "Systemerr \<notin> fst ` set (Frames io)"
    and "int (length (stream_bytes False (Frames io))) \<le> MaxOutputSize (rt_config r)"
    and "int (length (stream_bytes True (Frames io))) \<le> MaxOutputSize (rt_config r)"
  shows "\<exists>res. fst (Exec r h now sid req io) = Inr res
           \<and> Stdout res = stream_bytes False (Frames io)
           \<and> Stderr res = stream_bytes True (Frames io)"
  using assms
    StdCopy_fits [of "new_limitedWriter (MaxOutputSize (rt_config r))" "Frames io"
                     "new_limitedWriter (MaxOutputSize (rt_config r))"]
  by (simp add: Exec_found exec_body_def new_limitedWriter_def)

text \<open>
  C8. The claim: each stream of the result is at most \<^verbatim>\<open>MaxOutputSize\<close> long, and
  what lies beyond the cap is dropped for each stream on its own, without an error. The
  code keeps the bound and reports no error, but it does not cut the streams
  independently. The cap is 4. The process writes \<^verbatim>\<open>hello\<close> to standard output and
  then \<^verbatim>\<open>hi\<close> to standard error. The writer of standard output keeps
  \<^verbatim>\<open>hell\<close> and answers that it wrote 4 of the 5 bytes, with no error;
  \<^verbatim>\<open>StdCopy\<close> takes the short count for a failed write and stops with
  \<^verbatim>\<open>io.ErrShortWrite\<close>, before it reads the frame of standard error, and
  \<^verbatim>\<open>Exec\<close> drops that error. The call returns an empty standard error, though the
  two bytes are under the cap; with \<^verbatim>\<open>hi\<close> on standard output the same frame of
  standard error is returned. Once a writer is full, the same \<^verbatim>\<open>Write\<close> answers
  with the whole length of the payload, which is what lets the copy go on.
\<close>

theorem Exec_stderr_lost_after_stdout_cap:
  "MaxOutputSize (rt_config r1) = 4
   \<and> stream_bytes True frames_split = ''hi''
   \<and> stream_bytes True frames_short = ''hi''
   \<and> Exec r1 h1 20 ''ab12cd34'' req0 (eio0\<lparr>Frames := frames_split\<rparr>)
       = (Inr \<lparr>ExitCode = 0, Stdout = ''hell'', Stderr = [], Duration = 3,
                TimedOut = False, Error = []\<rparr>,
          exec_exit (exec_enter h1 0 20) 0)
   \<and> Exec r1 h1 20 ''ab12cd34'' req0 (eio0\<lparr>Frames := frames_short\<rparr>)
       = (Inr \<lparr>ExitCode = 0, Stdout = ''hi'', Stderr = ''hi'', Duration = 3,
                TimedOut = False, Error = []\<rparr>,
          exec_exit (exec_enter h1 0 20) 0)
   \<and> lw_Write (new_limitedWriter 4) ''hello''
       = ((4, None), \<lparr>buf = ''hell'', limit = 4, written = 4\<rparr>)
   \<and> lw_Write \<lparr>buf = ''hell'', limit = 4, written = 4\<rparr> ''hello''
       = ((5, None), \<lparr>buf = ''hell'', limit = 4, written = 4\<rparr>)
   \<and> fst (StdCopy (new_limitedWriter 4) (new_limitedWriter 4) frames_split) = Some ErrShortWrite"
  by (simp add: Exec_found r1_sandboxes r1_config exec_body_def eio0_def cfg0_def
      new_limitedWriter_def lw_Write_def Let_def frames_split_def frames_short_def
      stream_bytes_def)

section \<open>Destroying a sandbox twice\<close>

text \<open>
  C6 as the claim states it: a second \<^verbatim>\<open>Destroy\<close> after a successful one succeeds.
  It does not. The first call removes the id from the runtime's map, and the second
  fails in the lookup.
\<close>

theorem Destroy_twice_counterexample:
  "rt_Destroy r1 ''ab12cd34'' None = (None, r1\<lparr>sandboxes := Map.empty\<rparr>)
   \<and> rt_Destroy (r1\<lparr>sandboxes := Map.empty\<rparr>) ''ab12cd34'' None
       = (Some (ErrSandboxNotFound ''ab12cd34''), r1\<lparr>sandboxes := Map.empty\<rparr>)"
  by (simp add: rt_Destroy_def rt_Get_def r1_sandboxes)

text \<open>
  C6, amended. After a successful \<^verbatim>\<open>Destroy\<close> of an id, every further
  \<^verbatim>\<open>Destroy\<close> of that id fails with the not-found error of the lookup, whatever
  the daemon would answer, and leaves the runtime as it is: the second call has no
  further effect, and it does report an error.
\<close>

theorem Destroy_twice_not_found:
  assumes "rt_Destroy r sid rm = (None, r')"
  shows "rt_Destroy r' sid rm' = (Some (ErrSandboxNotFound sid), r')"
proof -
  from assms have "r' = r\<lparr>sandboxes := (sandboxes r)(sid := None)\<rparr>"
    by (auto simp: rt_Destroy_def rt_Get_def split: option.splits)
  then show ?thesis
    by (simp add: rt_Destroy_def rt_Get_def)
qed

theorem Destroy_twice_not_found_witness:
  "rt_Destroy r1 ''ab12cd34'' None = (None, r1\<lparr>sandboxes := Map.empty\<rparr>)
   \<and> rt_Destroy (r1\<lparr>sandboxes := Map.empty\<rparr>) ''ab12cd34'' (Some (ErrBackend ''daemon down''))
       = (Some (ErrSandboxNotFound ''ab12cd34''), r1\<lparr>sandboxes := Map.empty\<rparr>)"
proof -
  have d: "rt_Destroy r1 ''ab12cd34'' None = (None, r1\<lparr>sandboxes := Map.empty\<rparr>)"
    by (simp add: rt_Destroy_def rt_Get_def r1_sandboxes)
  from Destroy_twice_not_found [OF d, of "Some (ErrBackend ''daemon down'')"] d
  show ?thesis by simp
qed

section \<open>The pool's capacity\<close>

lemma length_update_le: "length (AList.update k v al) \<le> Suc (length al)"
  by (induction al) auto

lemma length_delete_less:
  "map_of al k = Some v \<Longrightarrow> length (AList.delete k al) < length al"
  by (induction al) (auto simp: le_imp_less_Suc length_delete_le split: if_splits)

lemma remove_by_id_length:
  "remove_by_id h sid xs = Some (sb, rest) \<Longrightarrow> Suc (length rest) = length xs"
  by (induction xs arbitrary: rest) (auto split: if_splits)

lemma length_cut_le: "length (cut_at i xs) \<le> length xs"
  by (simp add: cut_at_def)

lemma length_fold_cut_le: "length (fold cut_at is xs) \<le> length xs"
proof (induction "is" arbitrary: xs)
  case Nil
  then show ?case by simp
next
  case (Cons i "is")
  have "length (fold cut_at is (cut_at i xs)) \<le> length (cut_at i xs)" by (rule Cons.IH)
  also have "\<dots> \<le> length xs" by (rule length_cut_le)
  finally show ?case by simp
qed

lemma inv_init: "NewPool c = Some p \<Longrightarrow> pool_inv c (init_world h p)"
  by (auto simp: NewPool_def pool_inv_def init_world_def totalCount_def split: if_splits)

lemma inv_acquire_begin:
  assumes "pool_inv c s" and "step s (AcquireBegin now) = Some s'"
  shows "pool_inv c s'"
proof (cases "closed (pool s)")
  case True
  with assms show ?thesis by (auto simp: Acquire_lock1_def pool_inv_def)
next
  case False
  show ?thesis
  proof (cases "idle (pool s) = []")
    case True
    with assms False show ?thesis
      by (auto simp: Acquire_lock1_def pool_inv_def totalCount_def split: if_splits)
  next
    case ne: False
    let ?sb = "last (idle (pool s))"
    let ?k = "ID (deref (heap s) ?sb)"
    have l: "length (AList.update ?k ?sb (active (pool s))) \<le> Suc (length (active (pool s)))"
      by (rule length_update_le)
    have b: "int (length (butlast (idle (pool s)))) = int (length (idle (pool s))) - 1"
      using ne by (simp add: of_nat_diff Suc_leI)
    from assms False ne have s': "s' = s\<lparr>pool := (pool s)\<lparr>idle := butlast (idle (pool s)),
              active := AList.update ?k ?sb (active (pool s))\<rparr>,
            heap := assign (heap s) ?sb (\<lambda>x. x\<lparr>Status := StatusActive, LastActiveAt := now\<rparr>)\<rparr>"
      by (auto simp: Acquire_lock1_def Let_def)
    from assms(1) l b show ?thesis
      unfolding s' pool_inv_def totalCount_def
      by (simp add: distinct_update)
  qed
qed

lemma inv_acquire_end:
  assumes "pool_inv c s" and "step s (AcquireEnd cr) = Some s'"
  shows "pool_inv c s'"
proof (cases cr)
  case (Inl e)
  with assms show ?thesis
    by (auto simp: Acquire_lock2_def pool_inv_def totalCount_def split: if_splits)
next
  case (Inr sb)
  have l: "length (AList.update (ID (deref (heap s) sb)) sb (active (pool s)))
             \<le> Suc (length (active (pool s)))"
    by (rule length_update_le)
  from assms Inr l show ?thesis
    by (auto simp: Acquire_lock2_def pool_inv_def totalCount_def distinct_update split: if_splits)
qed

lemma inv_release:
  assumes "pool_inv c s" and "step s (ReleaseCall now sid) = Some s'"
  shows "pool_inv c s'"
proof (cases "map_of (active (pool s)) sid")
  case None
  with assms show ?thesis by (auto simp: Release_def pool_inv_def)
next
  case (Some sb)
  have l: "length (AList.delete sid (active (pool s))) < length (active (pool s))"
    using Some by (rule length_delete_less)
  from assms Some l show ?thesis
    by (auto simp: Release_def pool_inv_def totalCount_def Let_def distinct_delete split: if_splits)
qed

lemma inv_destroy:
  assumes "pool_inv c s" and "step s (DestroyCall sid) = Some s'"
  shows "pool_inv c s'"
proof (cases "map_of (active (pool s)) sid")
  case (Some sb)
  have l: "length (AList.delete sid (active (pool s))) < length (active (pool s))"
    using Some by (rule length_delete_less)
  from assms Some l show ?thesis
    by (auto simp: Destroy_lock_def pool_inv_def totalCount_def distinct_delete)
next
  case None
  show ?thesis
  proof (cases "remove_by_id (heap s) sid (idle (pool s))")
    case n: None
    with assms None show ?thesis by (auto simp: Destroy_lock_def pool_inv_def)
  next
    case (Some x)
    obtain sb rest where x: "x = (sb, rest)" by (cases x)
    from Some x have "Suc (length rest) = length (idle (pool s))"
      by (simp add: remove_by_id_length)
    with assms None Some x show ?thesis
      by (auto simp: Destroy_lock_def pool_inv_def totalCount_def)
  qed
qed

lemma inv_warmup:
  assumes "pool_inv c s"
    and "step s WarmupTick = Some s' \<or> step s WarmupBegin = Some s' \<or> step s (WarmupEnd cr) = Some s'"
  shows "pool_inv c s'"
  using assms
  by (cases cr)
     (auto simp: pool_inv_def totalCount_def warmup_claim_def warmup_done_def split: if_splits)

lemma inv_cleanup:
  assumes "pool_inv c s" and "step s (CleanupTick now) = Some s'"
  shows "pool_inv c s'"
proof -
  let ?p = "pool s"
  let ?rm = "cleanup_scan (heap s) (config ?p) now (length (idle ?p)) 0 (idle ?p) []"
  have a: "length (fold cut_at (rev ?rm) (idle ?p)) \<le> length (idle ?p)"
    by (rule length_fold_cut_le)
  have b: "length (filter (\<lambda>e. \<not> stuck (heap s) (config ?p) now e) (active ?p)) \<le> length (active ?p)"
    by (rule length_filter_le)
  from assms(2) have s': "s' = s\<lparr>pool := (pool s)\<lparr>idle := fold cut_at (rev ?rm) (idle ?p),
       active := filter (\<lambda>e. \<not> stuck (heap s) (config ?p) now e) (active ?p)\<rparr>\<rparr>"
    by (auto simp: cleanup_def Let_def)
  from assms(1) a b show ?thesis
    unfolding s' pool_inv_def totalCount_def
    by (simp add: distinct_map_filter del: length_filter_le)
qed

lemma inv_close:
  assumes "pool_inv c s" and "step s CloseCall = Some s'"
  shows "pool_inv c s'"
  using assms
  by (auto simp: Close_lock_def pool_inv_def totalCount_def split: if_splits)

lemma inv_step:
  assumes "pool_inv c s" and "step s e = Some s'"
  shows "pool_inv c s'"
proof (cases e)
  case (EnvHeap h')
  with assms show ?thesis by (auto simp: pool_inv_def)
next
  case (AcquireBegin now)
  with assms show ?thesis using inv_acquire_begin by blast
next
  case (AcquireEnd cr)
  with assms show ?thesis using inv_acquire_end by blast
next
  case (ReleaseCall now sid)
  with assms show ?thesis using inv_release by blast
next
  case (DestroyCall sid)
  with assms show ?thesis using inv_destroy by blast
next
  case WarmupTick
  with assms show ?thesis using inv_warmup by blast
next
  case WarmupBegin
  with assms show ?thesis using inv_warmup by blast
next
  case (WarmupEnd cr)
  with assms show ?thesis using inv_warmup by blast
next
  case (CleanupTick now)
  with assms show ?thesis using inv_cleanup by blast
next
  case CloseCall
  with assms show ?thesis using inv_close by blast
qed

lemma inv_run: "pool_inv c s \<Longrightarrow> run s es = Some s' \<Longrightarrow> pool_inv c s'"
proof (induction es arbitrary: s)
  case Nil
  then show ?case by simp
next
  case (Cons e es)
  from Cons.prems(2) obtain s1 where s1: "step s e = Some s1" and r: "run s1 es = Some s'"
    by (auto split: option.splits)
  from Cons.IH [OF inv_step [OF Cons.prems(1) s1] r] show ?case .
qed

lemma reachable_inv: "reachable c s \<Longrightarrow> pool_inv c s"
  unfolding reachable_def using inv_run inv_init by blast

lemma NewPool_pc1: "NewPool pc1 = Some p_new"
  by (simp add: NewPool_def pc1_def p_new_def)

lemma h1_ID: "ID (deref h1 0) = ''ab12cd34''"
  by (simp add: h1_cell)

lemma run_w_busy:
  "run (init_world h1 p_new) [WarmupTick, WarmupBegin, WarmupEnd (Inr 0), AcquireBegin 12] = Some w_busy"
  by (simp add: init_world_def p_new_def pc1_def warmup_needed_def warmup_claim_def
      warmup_done_def Acquire_lock1_def w_busy_def h1_ID Let_def)

lemma run_w_closed:
  "run (init_world h1 p_new) [WarmupTick, WarmupBegin, CloseCall, WarmupEnd (Inr 0)] = Some w_closed"
  by (simp add: init_world_def p_new_def pc1_def warmup_needed_def warmup_claim_def
      warmup_done_def Close_lock_def w_closed_def)

lemma reachable_w_busy: "reachable pc1 w_busy"
  unfolding reachable_def using NewPool_pc1 run_w_busy by blast

lemma reachable_w_closed: "reachable pc1 w_closed"
  unfolding reachable_def using NewPool_pc1 run_w_closed by blast

text \<open>
  C1. In every state that a pool made by \<^verbatim>\<open>NewPool\<close> reaches by any interleaving
  of the critical sections of \<^verbatim>\<open>Acquire\<close>, \<^verbatim>\<open>Release\<close>,
  \<^verbatim>\<open>Destroy\<close>, warmup, cleanup and \<^verbatim>\<open>Close\<close>, the length of the idle
  list plus the size of the active map plus the creating counter is at most
  \<^verbatim>\<open>MaxSize\<close>; the active map has no repeated key, so its length is its size, and
  the counter is not negative. \<^verbatim>\<open>Acquire\<close> claims a slot only after it found the
  sum below \<^verbatim>\<open>MaxSize\<close>, and so does each warmup creator, in the critical section
  in which it adds one to the counter.
\<close>

theorem pool_capacity:
  assumes "reachable c s"
  shows "int (length (idle (pool s))) + int (length (active (pool s))) + creating (pool s)
           \<le> MaxSize c
       \<and> distinct (map fst (active (pool s))) \<and> 0 \<le> creating (pool s)
       \<and> (\<forall>p'. Acquire_lock1 (pool s) (heap s) = (Inr None, p') \<longrightarrow>
              int (length (idle (pool s))) + int (length (active (pool s))) + creating (pool s)
                < MaxSize c
              \<and> creating p' = creating (pool s) + 1)
       \<and> (\<forall>p'. warmup_claim (pool s) = (True, p') \<longrightarrow>
              int (length (idle (pool s))) + int (length (active (pool s))) + creating (pool s)
                < MaxSize c
              \<and> creating p' = creating (pool s) + 1)"
proof -
  from assms have inv: "pool_inv c s" by (rule reachable_inv)
  then have cfg: "config (pool s) = c" by (simp add: pool_inv_def)
  from inv have 1: "int (length (idle (pool s))) + int (length (active (pool s))) + creating (pool s)
           \<le> MaxSize c"
    by (simp add: pool_inv_def totalCount_def)
  from inv have 2: "distinct (map fst (active (pool s)))" and 3: "0 \<le> creating (pool s)"
    by (simp_all add: pool_inv_def)
  have 4: "int (length (idle (pool s))) + int (length (active (pool s))) + creating (pool s)
                < MaxSize c \<and> creating p' = creating (pool s) + 1"
    if "Acquire_lock1 (pool s) (heap s) = (Inr None, p')" for p'
    using that cfg
    by (auto simp: Acquire_lock1_def totalCount_def Let_def split: if_splits)
  have 5: "int (length (idle (pool s))) + int (length (active (pool s))) + creating (pool s)
                < MaxSize c \<and> creating p' = creating (pool s) + 1"
    if "warmup_claim (pool s) = (True, p')" for p'
    using that cfg
    by (auto simp: warmup_claim_def split: if_splits)
  from 1 2 3 4 5 show ?thesis by blast
qed

theorem pool_capacity_witness:
  "reachable pc1 w_busy
   \<and> int (length (idle (pool w_busy))) + int (length (active (pool w_busy))) + creating (pool w_busy)
       = 1
   \<and> MaxSize pc1 = 2
   \<and> Acquire_lock1 (pool w_busy) (heap w_busy) = (Inr None, (pool w_busy)\<lparr>creating := 1\<rparr>)
   \<and> warmup_claim (pool w_busy) = (True, (pool w_busy)\<lparr>creating := 1\<rparr>)"
proof -
  have a: "Acquire_lock1 (pool w_busy) (heap w_busy) = (Inr None, (pool w_busy)\<lparr>creating := 1\<rparr>)"
    by (simp add: Acquire_lock1_def w_busy_def p_new_def pc1_def totalCount_def)
  have b: "warmup_claim (pool w_busy) = (True, (pool w_busy)\<lparr>creating := 1\<rparr>)"
    by (simp add: warmup_claim_def w_busy_def p_new_def pc1_def)
  have c: "int (length (idle (pool w_busy))) + int (length (active (pool w_busy)))
             + creating (pool w_busy) = 1"
    by (simp add: w_busy_def p_new_def)
  from pool_capacity [OF reachable_w_busy] reachable_w_busy a b c show ?thesis
    by (simp add: pc1_def)
qed

section \<open>Acquire serves the idle list last-in first-out\<close>

lemma Acquire_idle:
  assumes "\<not> closed p" and "idle p \<noteq> []"
  shows "Acquire p h now create =
           (Inr (last (idle p)),
            p\<lparr>idle := butlast (idle p),
              active := AList.update (ID (deref h (last (idle p)))) (last (idle p)) (active p)\<rparr>,
            assign h (last (idle p)) (\<lambda>s. s\<lparr>Status := StatusActive, LastActiveAt := now\<rparr>))"
  using assms by (simp add: Acquire_def Acquire_lock1_def Let_def)

lemma Release_pooled:
  assumes "Release pb hb t sid = (None, p, h, None)"
  shows "\<exists>sb. map_of (active pb) sid = Some sb \<and> idle p = idle pb @ [sb]"
  using assms by (auto simp: Release_def Let_def split: option.splits if_splits)

text \<open>
  C7 as the claim states it: whenever the idle list is not empty, \<^verbatim>\<open>Acquire\<close>
  returns its last sandbox. It does not on a closed pool, and a closed pool can have a
  sandbox in its idle list: \<open>w_closed\<close> is reached when \<^verbatim>\<open>Close\<close> runs while a
  warmup creator waits for \<^verbatim>\<open>Create\<close>. There \<^verbatim>\<open>Acquire\<close> fails with
  \<^verbatim>\<open>ErrPoolClosed\<close> and leaves the idle list as it is.
\<close>

theorem Acquire_closed_counterexample:
  "reachable pc1 w_closed \<and> idle (pool w_closed) = [0]
   \<and> Acquire (pool w_closed) (heap w_closed) 20 no_create
       = (Inl ErrPoolClosed, pool w_closed, heap w_closed)"
  using reachable_w_closed
  by (simp add: Acquire_def Acquire_lock1_def w_closed_def)

text \<open>
  C7, amended. Whenever the pool is not closed and the idle list is not empty,
  \<^verbatim>\<open>Acquire\<close> returns the last sandbox of the idle list whatever the runtime
  would create, removes it from the idle list, enters it in the active map under its id
  and sets its status to active and its time stamp to now. \<^verbatim>\<open>Release\<close> pushes at
  that end: when the pool is in the state in which a \<^verbatim>\<open>Release\<close> that pooled its
  sandbox left it, the sandbox returned is the one just released. A slot for a fresh
  sandbox is claimed only when the idle list is empty.
\<close>

theorem Acquire_LIFO:
  assumes "\<not> closed p" and "idle p \<noteq> []"
  shows "\<exists>p' h'. Acquire p h now create = (Inr (last (idle p)), p', h')
           \<and> idle p' = butlast (idle p)
           \<and> Pool_Get p' (ID (deref h (last (idle p)))) = Inr (last (idle p))
           \<and> Status (deref h' (last (idle p))) = StatusActive
           \<and> LastActiveAt (deref h' (last (idle p))) = now
           \<and> (\<forall>pb hb t sid. Release pb hb t sid = (None, p, h, None) \<longrightarrow>
                  map_of (active pb) sid = Some (last (idle p)))
           \<and> (\<forall>q hq q'. Acquire_lock1 q hq = (Inr None, q') \<longrightarrow> idle q = [])"
proof -
  let ?sb = "last (idle p)"
  let ?p' = "p\<lparr>idle := butlast (idle p),
              active := AList.update (ID (deref h ?sb)) ?sb (active p)\<rparr>"
  let ?h' = "assign h ?sb (\<lambda>s. s\<lparr>Status := StatusActive, LastActiveAt := now\<rparr>)"
  have 1: "Acquire p h now create = (Inr ?sb, ?p', ?h')"
    using assms by (rule Acquire_idle)
  have 2: "Pool_Get ?p' (ID (deref h ?sb)) = Inr ?sb"
    by (simp add: Pool_Get_def update_conv')
  have 3: "Status (deref ?h' ?sb) = StatusActive" "LastActiveAt (deref ?h' ?sb) = now"
    by (simp_all add: deref_def assign_def)
  have 4: "map_of (active pb) sid = Some ?sb"
    if "Release pb hb t sid = (None, p, h, None)" for pb hb t sid
    using Release_pooled [OF that] by auto
  have 5: "idle q = []" if "Acquire_lock1 q hq = (Inr None, q')" for q hq q'
    using that by (auto simp: Acquire_lock1_def Let_def split: if_splits)
  from 1 2 3 4 5 show ?thesis by auto
qed

text \<open>
  The example: the first caller releases sandbox 0 at time 30 and the next
  \<^verbatim>\<open>Acquire\<close>, at time 31, gets it back.
\<close>

theorem Acquire_LIFO_witness:
  "Release (pool w_busy) (heap w_busy) 30 ''ab12cd34''
     = (None, p_new\<lparr>idle := [0]\<rparr>,
        assign (heap w_busy) 0 (\<lambda>s. s\<lparr>Status := StatusIdle, LastActiveAt := 30\<rparr>), None)
   \<and> \<not> closed (p_new\<lparr>idle := [0]\<rparr>) \<and> idle (p_new\<lparr>idle := [0]\<rparr>) \<noteq> []
   \<and> (\<exists>p' h'. Acquire (p_new\<lparr>idle := [0]\<rparr>)
                 (assign (heap w_busy) 0 (\<lambda>s. s\<lparr>Status := StatusIdle, LastActiveAt := 30\<rparr>))
                 31 no_create = (Inr 0, p', h')
        \<and> idle p' = [] \<and> Pool_Get p' ''ab12cd34'' = Inr 0
        \<and> Status (deref h' 0) = StatusActive \<and> LastActiveAt (deref h' 0) = 31)"
proof -
  let ?p = "p_new\<lparr>idle := [0]\<rparr>"
  let ?h = "assign (heap w_busy) 0 (\<lambda>s. s\<lparr>Status := StatusIdle, LastActiveAt := 30\<rparr>)"
  have r: "Release (pool w_busy) (heap w_busy) 30 ''ab12cd34'' = (None, ?p, ?h, None)"
    by (simp add: Release_def w_busy_def p_new_def pc1_def Let_def)
  have c: "\<not> closed ?p" and i: "idle ?p \<noteq> []"
    by (simp_all add: p_new_def)
  have k: "ID (deref ?h (last (idle ?p))) = ''ab12cd34''"
    by (simp add: deref_def assign_def w_busy_def h1_ID [unfolded deref_def])
  have l: "last (idle ?p) = 0" and b: "butlast (idle ?p) = []"
    by simp_all
  from Acquire_LIFO [OF c i, of ?h 31 no_create]
  have "\<exists>p' h'. Acquire ?p ?h 31 no_create = (Inr 0, p', h')
        \<and> idle p' = [] \<and> Pool_Get p' ''ab12cd34'' = Inr 0
        \<and> Status (deref h' 0) = StatusActive \<and> LastActiveAt (deref h' 0) = 31"
    unfolding l b k [unfolded l] by blast
  with r c i show ?thesis by blast
qed

section \<open>Exec and the status of the handle\<close>

text \<open>
  The pool and the runtime hold the same object: \<^verbatim>\<open>Create\<close> enters the new
  handle in the runtime's map under the sandbox's id, and the second critical section of
  \<^verbatim>\<open>Acquire\<close> enters that handle in the active map under the same id.
\<close>

lemma rt_Create_registers:
  assumes "rt_Create r h now c io = (Inr a, r', h')"
  shows "sandboxes r' (ID (deref h' a)) = Some a"
  using assms
  by (auto simp: rt_Create_def alloc_def deref_def Let_def split: option.splits sum.splits)

lemma Acquire_lock2_registers:
  assumes "Acquire_lock2 p h' (Inr a) = (res, p')"
  shows "res = Inr a \<and> Pool_Get p' (ID (deref h' a)) = Inr a"
  using assms by (auto simp: Acquire_lock2_def Pool_Get_def update_conv')

text \<open>
  C9. A successful \<^verbatim>\<open>Exec\<close> finds the handle of the sandbox in the runtime's map,
  sets its status to active on entry (with the time stamp) and sets it to idle when it
  returns: the heap after the call is the heap before it with these two writes. The
  write goes to the one object that the pool shares with the runtime, so when the pool
  has the sandbox checked out (\<^verbatim>\<open>Pool.Get\<close> finds it in the active map) the status
  read through the pool's handle is idle after the call.
\<close>

theorem Exec_leaves_idle:
  assumes "Exec r h now sid req io = (Inr res, h')"
  shows "\<exists>a. rt_Get r sid = Inr a
           \<and> Status (deref (exec_enter h a now) a) = StatusActive
           \<and> h' = exec_exit (exec_enter h a now) a
           \<and> Status (deref h' a) = StatusIdle
           \<and> (\<forall>p. Pool_Get p sid = Inr a \<longrightarrow> Status (deref h' a) = StatusIdle)"
proof -
  from assms obtain a where a: "sandboxes r sid = Some a"
    using Exec_Inr_found by blast
  with assms have h': "h' = exec_exit (exec_enter h a now) a"
    by (simp add: Exec_found)
  have "Status (deref (exec_enter h a now) a) = StatusActive"
    by (simp add: exec_enter_def deref_def assign_def)
  moreover have "Status (deref h' a) = StatusIdle"
    by (simp add: h' exec_exit_def deref_def assign_def)
  ultimately show ?thesis using a h' by (auto simp: rt_Get_def)
qed

text \<open>
  The example: the pool creates sandbox 0 through the Docker runtime at time 10 and hands
  it out with status active; the caller runs a command in it at time 20. Afterwards the
  sandbox is still in the pool's active map and its status is idle.
\<close>

theorem Exec_leaves_idle_witness:
  "Acquire p_new h0 10 (docker_create (NewDockerRuntime cfg0) 10 cio0 cfg0)
     = (Inr 0, p_new\<lparr>active := [(''ab12cd34'', 0)]\<rparr>,
        assign h1 0 (\<lambda>s. s\<lparr>Status := StatusActive\<rparr>))
   \<and> Status (deref (assign h1 0 (\<lambda>s. s\<lparr>Status := StatusActive\<rparr>)) 0) = StatusActive
   \<and> (\<exists>res h'. Exec r1 (assign h1 0 (\<lambda>s. s\<lparr>Status := StatusActive\<rparr>)) 20 ''ab12cd34'' req0 eio0
                  = (Inr res, h')
        \<and> Pool_Get (p_new\<lparr>active := [(''ab12cd34'', 0)]\<rparr>) ''ab12cd34'' = Inr 0
        \<and> Status (deref h' 0) = StatusIdle)"
proof -
  let ?h = "assign h1 0 (\<lambda>s. s\<lparr>Status := StatusActive\<rparr>)"
  have a: "Acquire p_new h0 10 (docker_create (NewDockerRuntime cfg0) 10 cio0 cfg0)
     = (Inr 0, p_new\<lparr>active := [(''ab12cd34'', 0)]\<rparr>, ?h)"
    by (simp add: Acquire_def Acquire_lock1_def Acquire_lock2_def docker_create_def
        rt_Create_example p_new_def pc1_def totalCount_def h1_ID)
  have s: "Status (deref ?h 0) = StatusActive"
    by (simp add: deref_def assign_def)
  obtain res where e: "Exec r1 ?h 20 ''ab12cd34'' req0 eio0
      = (Inr res, exec_exit (exec_enter ?h 0 20) 0)"
    using exec_body_succeeds [of eio0 "''e1''" 0 "rt_config r1"]
    by (auto simp: Exec_found r1_sandboxes eio0_def)
  have g: "Pool_Get (p_new\<lparr>active := [(''ab12cd34'', 0)]\<rparr>) ''ab12cd34'' = Inr 0"
    by (simp add: Pool_Get_def)
  from Exec_leaves_idle [OF e] a s e g show ?thesis
    by (auto simp: rt_Get_def r1_sandboxes)
qed

section \<open>The modification time of a listed file\<close>









section \<open>The session manager\<close>

lemma paused_ok_simps [simp]:
  "paused_ok (as_row x) = paused_ok x"
  "paused_ok (x\<lparr>UpdatedAt := t\<rparr>) = paused_ok x"
  "paused_ok (x\<lparr>SessionLastActiveAt := t\<rparr>) = paused_ok x"
  "paused_ok (x\<lparr>WorkspaceURL := u\<rparr>) = paused_ok x"
  by (simp_all add: paused_ok_def as_row_def)

lemma cache_Set_inv:
  assumes "cache_ok c" and "paused_ok s"
  shows "cache_ok (cache_Set c now s ttl)"
  using assms unfolding cache_ok_def cache_Set_def Let_def
  by (auto split: if_splits)

lemma cache_Touch_inv:
  assumes "cache_ok c"
  shows "cache_ok (cache_Touch c now k ttl)"
proof (cases "cache_Get c now k")
  case None
  with assms show ?thesis by (simp add: cache_Touch_def Let_def)
next
  case (Some s)
  then obtain d where "entries c k = Some (s, d)"
    by (auto simp: cache_Get_def split: option.splits if_splits)
  with assms have "paused_ok s" unfolding cache_ok_def by blast
  with assms Some show ?thesis
    unfolding cache_ok_def cache_Touch_def Let_def by (auto split: if_splits)
qed

lemma cache_Delete_inv: "cache_ok c \<Longrightarrow> cache_ok (cache_Delete c k)"
  unfolding cache_ok_def cache_Delete_def by (auto split: if_splits)

lemma rows_ok_upd:
  "rows_ok st \<Longrightarrow> paused_ok x \<Longrightarrow> rows_ok (st\<lparr>rows := (rows st)(k \<mapsto> x)\<rparr>)"
  unfolding rows_ok_def by (auto split: if_splits)

lemma rows_ok_del: "rows_ok st \<Longrightarrow> rows_ok (st\<lparr>rows := (rows st)(k := None)\<rparr>)"
  unfolding rows_ok_def by (auto split: if_splits)

lemma rows_ok_unavailable [simp]: "rows_ok (st\<lparr>unavailable := b\<rparr>) = rows_ok st"
  by (simp add: rows_ok_def)

lemma cache_refresh_inv:
  assumes "mgr_inv m" and "paused_ok s"
  shows "mgr_inv (m\<lparr>cache := cache_refresh (cache m) now s\<rparr>)"
  using assms
  by (cases "cache m") (auto simp: mgr_inv_def cache_refresh_def Let_def cache_Set_inv)

lemma Get_inv:
  assumes "mgr_inv m" and "Get m now sid = (r, m1)"
  shows "mgr_inv m1 \<and> (\<forall>x. r = Inr x \<longrightarrow> paused_ok x)"
proof (cases "case cache m of None \<Rightarrow> None | Some c \<Rightarrow> cache_Get c now sid")
  case (Some x)
  then obtain c d where c: "cache m = Some c" "entries c sid = Some (x, d)"
    by (auto simp: cache_Get_def split: option.splits if_splits)
  with assms(1) have "cache_ok c" by (simp add: mgr_inv_def)
  with c have "paused_ok x" unfolding cache_ok_def by blast
  with assms Some show ?thesis by (auto simp: Get_def)
next
  case None
  show ?thesis
  proof (cases "store_Get (store m) sid")
    case (Inl e)
    with assms None show ?thesis by (auto simp: Get_def)
  next
    case (Inr x)
    then have "rows (store m) sid = Some x"
      by (auto simp: store_Get_def split: if_splits option.splits)
    with assms(1) have ok: "paused_ok x" unfolding mgr_inv_def rows_ok_def by blast
    from cache_refresh_inv [OF assms(1) ok] assms None Inr ok show ?thesis
      by (auto simp: Get_def split: if_splits)
  qed
qed

lemma Update_inv:
  assumes "mgr_inv m" and "paused_ok x" and "Update m now x = (r, m1)"
  shows "mgr_inv m1"
proof (cases "unavailable (store m)")
  case True
  with assms show ?thesis by (auto simp: Update_def store_Update_def Let_def)
next
  case False
  let ?x = "x\<lparr>UpdatedAt := now\<rparr>"
  let ?m = "m\<lparr>store := (store m)\<lparr>rows := (rows (store m))(SessionID x \<mapsto> as_row ?x)\<rparr>\<rparr>"
  have a: "mgr_inv ?m"
    using assms(1,2) by (simp add: mgr_inv_def rows_ok_upd)
  have ok: "paused_ok ?x" using assms(2) by simp
  from False assms(3) have "m1 = ?m\<lparr>cache := cache_refresh (cache ?m) now ?x\<rparr>"
    by (auto simp: Update_def store_Update_def Let_def)
  with cache_refresh_inv [OF a ok] show ?thesis by simp
qed

lemma Create_inv:
  assumes "mgr_inv m" and "Create m now uuid req = (r, m1)"
  shows "mgr_inv m1 \<and> (\<forall>x. r = Inr x \<longrightarrow> paused_ok x)"
proof -
  let ?s = "\<lparr>SessionID = uuid, UserID = reqUserID req, SandboxID = [],
                     SessionStatus = SessionStatusActive, WorkspaceURL = [],
                     SessionImage = (if reqImage req = [] then ''python:3.11-slim'' else reqImage req),
                     SessionCPUCount = (if reqCPUCount req = 0 then 2 else reqCPUCount req),
                     SessionMemoryMB = (if reqMemoryMB req = 0 then 2048 else reqMemoryMB req),
                     SessionCreatedAt = now, UpdatedAt = now, SessionLastActiveAt = now,
                     ExpiresAt = now + create_ttl m req, PausedAt = None, Metadata = reqMetadata req\<rparr>"
  have ok: "paused_ok ?s" by (simp add: paused_ok_def)
  show ?thesis
  proof (cases "store_Create (store m) ?s")
    case (Inl e)
    with assms show ?thesis by (auto simp: Create_def Let_def)
  next
    case (Inr st')
    then have st': "st' = (store m)\<lparr>rows := (rows (store m))(uuid \<mapsto> as_row ?s)\<rparr>"
      by (auto simp: store_Create_def split: if_splits)
    have a: "rows_ok st'"
      using assms(1) ok unfolding st' by (simp add: mgr_inv_def rows_ok_upd)
    have b: "mgr_inv (m\<lparr>store := st', cache := map_option (\<lambda>c. cache_Set c now ?s (create_ttl m req)) (cache m)\<rparr>)"
      using assms(1) a ok by (cases "cache m") (auto simp: mgr_inv_def cache_Set_inv)
    from assms(2) Inr b ok show ?thesis
      by (auto simp: Create_def Let_def)
  qed
qed

lemma Delete_inv:
  assumes "mgr_inv m" and "Delete m sid = (r, m1)"
  shows "mgr_inv m1"
  using assms
  by (cases "cache m")
     (auto simp: Delete_def store_Delete_def mgr_inv_def Let_def cache_Delete_inv rows_ok_del
        split: if_splits)

lemma Pause_inv:
  assumes "mgr_inv m" and "Pause m now sid save = (r, m2)"
  shows "mgr_inv m2"
proof -
  obtain g m1 where g: "Get m now sid = (g, m1)" by (cases "Get m now sid")
  from Get_inv [OF assms(1) g] have m1: "mgr_inv m1" and okg: "\<forall>x. g = Inr x \<longrightarrow> paused_ok x"
    by simp_all
  show ?thesis
  proof (cases g)
    case (Inl e)
    with assms(2) g m1 show ?thesis by (simp add: Pause_def)
  next
    case (Inr x)
    have p: "paused_ok (y\<lparr>SessionStatus := SessionStatusPaused, PausedAt := Some now, SandboxID := []\<rparr>)" for y
      by (simp add: paused_ok_def)
    from assms(2) g Inr m1 p show ?thesis
      by (auto simp: Pause_def split: if_splits sum.splits intro: Update_inv)
  qed
qed

lemma Resume_inv:
  assumes "mgr_inv m" and "Resume m now sid = (r, m2)"
  shows "mgr_inv m2"
proof -
  obtain g m1 where g: "Get m now sid = (g, m1)" by (cases "Get m now sid")
  from Get_inv [OF assms(1) g] have m1: "mgr_inv m1" by simp
  show ?thesis
  proof (cases g)
    case (Inl e)
    with assms(2) g m1 show ?thesis by (simp add: Resume_def)
  next
    case (Inr x)
    let ?y = "x\<lparr>SessionStatus := SessionStatusActive, PausedAt := None,
                SessionLastActiveAt := now, ExpiresAt := now + defaultTTL m1\<rparr>"
    have p: "paused_ok ?y" by (simp add: paused_ok_def)
    obtain u m3 where u: "Update m1 now ?y = (u, m3)" by (cases "Update m1 now ?y")
    from Update_inv [OF m1 p u] have "mgr_inv m3" .
    with assms(2) g Inr m1 u show ?thesis
      by (auto simp: Resume_def Let_def split: if_splits option.splits)
  qed
qed

lemma Touch_inv:
  assumes "mgr_inv m" and "Touch m now sid = (r, m2)"
  shows "mgr_inv m2"
proof -
  obtain g m1 where g: "Get m now sid = (g, m1)" by (cases "Get m now sid")
  from Get_inv [OF assms(1) g] have m1: "mgr_inv m1" and okg: "\<forall>x. g = Inr x \<longrightarrow> paused_ok x"
    by simp_all
  show ?thesis
  proof (cases g)
    case (Inl e)
    with assms(2) g m1 show ?thesis by (simp add: Touch_def)
  next
    case (Inr x)
    with okg have okx: "paused_ok x" by simp
    show ?thesis
    proof (cases "unavailable (store m1)")
      case True
      with assms(2) g Inr m1 show ?thesis
        by (auto simp: Touch_def store_Update_def Let_def)
    next
      case False
      let ?y = "x\<lparr>SessionLastActiveAt := now\<rparr>"
      let ?st = "(store m1)\<lparr>rows := (rows (store m1))(SessionID x \<mapsto> as_row (?y\<lparr>UpdatedAt := now\<rparr>))\<rparr>"
      from assms(2) g Inr False have m2: "m2 = m1\<lparr>store := ?st,
         cache := map_option (\<lambda>c. let ttl = ExpiresAt ?y - now
                          in if ttl > 0 then cache_Touch c now sid ttl else c) (cache m1)\<rparr>"
        by (auto simp: Touch_def store_Update_def Let_def)
      have rows: "rows_ok ?st"
        using m1 okx by (simp add: mgr_inv_def rows_ok_upd)
      from m1 m2 rows show ?thesis
        by (cases "cache m1") (auto simp: mgr_inv_def Let_def cache_Touch_inv)
    qed
  qed
qed

lemma Bind_inv:
  assumes "mgr_inv m" and "checked m (now, OpBindSandbox sid sb)"
    and "BindSandbox m now sid sb = (r, m2)"
  shows "mgr_inv m2"
proof -
  obtain g m1 where g: "Get m now sid = (g, m1)" by (cases "Get m now sid")
  from Get_inv [OF assms(1) g] have m1: "mgr_inv m1" and okg: "\<forall>x. g = Inr x \<longrightarrow> paused_ok x"
    by simp_all
  show ?thesis
  proof (cases g)
    case (Inl e)
    with assms(3) g m1 show ?thesis by (simp add: BindSandbox_def)
  next
    case (Inr x)
    with okg have okx: "paused_ok x" by simp
    from assms(2) g Inr have "sb = [] \<or> SessionStatus x \<noteq> SessionStatusPaused" by simp
    with okx have p: "paused_ok (x\<lparr>SandboxID := sb, SessionLastActiveAt := now\<rparr>)"
      by (auto simp: paused_ok_def)
    from assms(3) g Inr have "Update m1 now (x\<lparr>SandboxID := sb, SessionLastActiveAt := now\<rparr>) = (r, m2)"
      by (simp add: BindSandbox_def)
    from Update_inv [OF m1 p this] show ?thesis .
  qed
qed

lemma Unbind_inv:
  assumes "mgr_inv m" and "UnbindSandbox m now sid = (r, m2)"
  shows "mgr_inv m2"
proof -
  obtain g m1 where g: "Get m now sid = (g, m1)" by (cases "Get m now sid")
  from Get_inv [OF assms(1) g] have m1: "mgr_inv m1" and okg: "\<forall>x. g = Inr x \<longrightarrow> paused_ok x"
    by simp_all
  show ?thesis
  proof (cases g)
    case (Inl e)
    with assms(2) g m1 show ?thesis by (simp add: UnbindSandbox_def)
  next
    case (Inr x)
    with okg have okx: "paused_ok x" by simp
    then have p: "paused_ok (x\<lparr>SandboxID := []\<rparr>)" by (simp add: paused_ok_def)
    from assms(2) g Inr have "Update m1 now (x\<lparr>SandboxID := []\<rparr>) = (r, m2)"
      by (simp add: UnbindSandbox_def)
    from Update_inv [OF m1 p this] show ?thesis .
  qed
qed

lemma step_inv:
  assumes "mgr_inv m" and "checked m e"
  shows "mgr_inv (mgr_step m e)"
proof -
  obtain now op where e: "e = (now, op)" by (cases e)
  show ?thesis
  proof (cases op)
    case (OpCreate uuid req)
    with e Create_inv [OF assms(1), of now uuid req] show ?thesis
      by (cases "Create m now uuid req") simp
  next
    case (OpGet sid)
    with e Get_inv [OF assms(1), of now sid] show ?thesis
      by (cases "Get m now sid") simp
  next
    case (OpUpdate x)
    with e assms(2) Update_inv [OF assms(1), of x now] show ?thesis
      by (cases "Update m now x") simp
  next
    case (OpDelete sid)
    with e Delete_inv [OF assms(1), of sid] show ?thesis
      by (cases "Delete m sid") simp
  next
    case (OpPause sid save)
    with e Pause_inv [OF assms(1), of now sid save] show ?thesis
      by (cases "Pause m now sid save") simp
  next
    case (OpResume sid)
    with e Resume_inv [OF assms(1), of now sid] show ?thesis
      by (cases "Resume m now sid") simp
  next
    case (OpTouch sid)
    with e Touch_inv [OF assms(1), of now sid] show ?thesis
      by (cases "Touch m now sid") simp
  next
    case (OpBindSandbox sid sb)
    with e assms(2) Bind_inv [OF assms(1), of now sid sb] show ?thesis
      by (cases "BindSandbox m now sid sb") simp
  next
    case (OpUnbindSandbox sid)
    with e Unbind_inv [OF assms(1), of now sid] show ?thesis
      by (cases "UnbindSandbox m now sid") simp
  next
    case (OpOutage b)
    with e assms(1) show ?thesis by (simp add: mgr_inv_def)
  qed
qed

lemma run_inv: "mgr_inv m \<Longrightarrow> all_checked m es \<Longrightarrow> mgr_inv (mgr_run m es)"
  by (induction es arbitrary: m) (simp_all add: step_inv)

lemma mgr_inv_m0: "mgr_inv m0"
  by (simp add: mgr_inv_def rows_ok_def cache_ok_def m0_def NewManager_def)

lemma Get_keeps:
  assumes "Get m now sid = (r, m1)"
  shows "store m1 = store m \<and> workspaceStorage m1 = workspaceStorage m
       \<and> defaultTTL m1 = defaultTTL m \<and> maxTTL m1 = maxTTL m"
  using assms by (auto simp: Get_def split: option.splits sum.splits if_splits)

subsection \<open>Concrete runs\<close>

lemmas mgr_defs = mgr_run.simps mgr_step.simps Create_def Get_def Update_def Pause_def Resume_def Touch_def
  BindSandbox_def UnbindSandbox_def Delete_def store_Create_def store_Get_def store_Update_def
  store_Delete_def cache_Get_def cache_Set_def cache_Touch_def cache_Delete_def cache_refresh_def
  create_ttl_def IsExpired_def as_row_def NewManager_def Let_def

lemma run_bound:
  "mgr_run m0 ops_bound =
     m0\<lparr>store := \<lparr>rows = [''s1'' \<mapsto> x_bound], unavailable = False\<rparr>,
        cache := Some \<lparr>entries = [''s1'' \<mapsto> (x_bound, 3600)], cache_ttl = 86400\<rparr>\<rparr>"
  by (simp add: ops_bound_def m0_def mc0_def creq0_def x_bound_def x_new_def mgr_defs)

lemma run_paused_row:
  "rows (store (mgr_run m0 ops_paused)) ''s1'' =
     Some (x_bound\<lparr>WorkspaceURL := ''workspaces/s1/workspace.tar.gz'',
                    SessionStatus := SessionStatusPaused, PausedAt := Some 2, SandboxID := [],
                    UpdatedAt := 2\<rparr>)"
  by (simp add: ops_paused_def ops_bound_def m0_def mc0_def creq0_def x_bound_def x_new_def mgr_defs)

lemma run_rebound_row:
  "rows (store (mgr_run m0 ops_rebound)) ''s1'' =
     Some (x_bound\<lparr>WorkspaceURL := ''workspaces/s1/workspace.tar.gz'',
                    SessionStatus := SessionStatusPaused, PausedAt := Some 2, SandboxID := ''sb2'',
                    SessionLastActiveAt := 3, UpdatedAt := 3\<rparr>)"
  by (simp add: ops_rebound_def ops_paused_def ops_bound_def m0_def mc0_def creq0_def x_bound_def x_new_def mgr_defs)

lemma run_overwritten_row:
  "rows (store (mgr_run m0 ops_overwritten)) ''s1'' =
     Some (x_new\<lparr>SessionStatus := SessionStatusPaused, SandboxID := ''sb1'', UpdatedAt := 1\<rparr>)"
  by (simp add: ops_overwritten_def m0_def mc0_def creq0_def x_new_def mgr_defs)

lemma run_stale:
  "mgr_run m0 ops_stale =
     m0\<lparr>store := \<lparr>rows = [''s1'' \<mapsto> x_new\<lparr>ExpiresAt := 5, UpdatedAt := 10\<rparr>], unavailable = False\<rparr>,
        cache := Some \<lparr>entries = [''s1'' \<mapsto> (x_new, 3600)], cache_ttl = 86400\<rparr>\<rparr>"
  by (simp add: ops_stale_def m0_def mc0_def creq0_def x_new_def mgr_defs)

lemma all_checked_paused: "all_checked m0 ops_paused"
  by (simp add: ops_paused_def ops_bound_def m0_def mc0_def creq0_def x_new_def mgr_defs)

subsection \<open>Get and expiry\<close>

text \<open>
  C2. The claim: whenever the stored record of a session is past its expiry,
  \<^verbatim>\<open>Get\<close> fails with the expired error, also when the session is in the cache.
  The code does not do that. A session is created at time 0 with an hour to live and is
  cached; at time 10 \<^verbatim>\<open>Update\<close> stores a snapshot of it that expired at time 5,
  and since that snapshot has no time left \<^verbatim>\<open>Update\<close> does not write the cache,
  which keeps the entry of time 0. At time 20 the stored record is past its expiry, the
  cached entry is alive until time 3600, and \<^verbatim>\<open>Get\<close> returns the cached session:
  it returns on the cache hit, before the store is read and the expiry is checked.
\<close>

theorem Get_returns_cached_expired:
  "map_option ExpiresAt (rows (store (mgr_run m0 ops_stale)) ''s1'') = Some 5
   \<and> IsExpired (the (rows (store (mgr_run m0 ops_stale)) ''s1'')) 20
   \<and> cache_lookup (mgr_run m0 ops_stale) 20 ''s1'' = Some x_new
   \<and> Get (mgr_run m0 ops_stale) 20 ''s1'' = (Inr x_new, mgr_run m0 ops_stale)"
  by (simp add: run_stale Get_def cache_lookup_def cache_Get_def IsExpired_def x_new_def)

text \<open>
  What \<^verbatim>\<open>Get\<close> does for a session whose stored record is past its expiry (and a
  database that answers): with no cache, or no live entry for the id, it fails with the
  expired error and changes nothing; with a live entry it returns the cached session.
\<close>

lemma Get_expired:
  assumes "rows (store m) sid = Some x" and "now > ExpiresAt x" and "\<not> unavailable (store m)"
  shows "(cache_lookup m now sid = None \<longrightarrow> Get m now sid = (Inl (SessionExpired sid), m))
       \<and> (\<forall>y. cache_lookup m now sid = Some y \<longrightarrow> Get m now sid = (Inr y, m))"
  using assms
  by (auto simp: Get_def cache_lookup_def store_Get_def IsExpired_def)

lemma Get_expired_example:
  "Get ((mgr_run m0 ops_stale)\<lparr>cache := None\<rparr>) 20 ''s1''
     = (Inl (SessionExpired ''s1''), (mgr_run m0 ops_stale)\<lparr>cache := None\<rparr>)"
proof -
  let ?m = "(mgr_run m0 ops_stale)\<lparr>cache := None\<rparr>"
  let ?x = "x_new\<lparr>ExpiresAt := 5, UpdatedAt := 10\<rparr>"
  have r: "rows (store ?m) ''s1'' = Some ?x" and u: "\<not> unavailable (store ?m)"
    by (simp_all add: run_stale)
  have e: "20 > ExpiresAt ?x" by simp
  have n: "cache_lookup ?m 20 ''s1'' = None"
    by (simp add: cache_lookup_def)
  from Get_expired [OF r e u] n show ?thesis by simp
qed

subsection \<open>Pause\<close>

text \<open>
  \<^verbatim>\<open>Pause\<close> works on the session that \<^verbatim>\<open>Get\<close> hands it, which is the cached
  copy when the cache has one. Let \<^verbatim>\<open>Get\<close> give the manager the session \<open>x\<close>;
  the lookup leaves the store as it is. Unless \<open>x\<close> is active with a sandbox bound, \<^verbatim>\<open>Pause\<close> fails
  with an error of kind \<^verbatim>\<open>InvalidState\<close> and the store is unchanged. Otherwise, with
  an archive configured: when \<^verbatim>\<open>Save\<close> fails, \<^verbatim>\<open>Pause\<close> fails with the wrapped
  error and the store is unchanged; when \<^verbatim>\<open>Save\<close> returns a key and the database
  answers, \<^verbatim>\<open>Pause\<close> succeeds and the only change to the store is the row of the
  session: \<open>x\<close> with \<^verbatim>\<open>workspace_url\<close> the key, status paused,
  \<^verbatim>\<open>paused_at\<close> now, no sandbox id, and \<^verbatim>\<open>updated_at\<close> now.
\<close>

lemma Pause_contract:
  assumes "Get m now sid = (Inr x, m1)"
  shows "store m1 = store m
       \<and> (SessionStatus x \<noteq> SessionStatusActive \<or> SandboxID x = [] \<longrightarrow>
            (\<exists>e. Pause m now sid save = (Some e, m1) \<and> InvalidState e))
       \<and> (SessionStatus x = SessionStatusActive \<and> SandboxID x \<noteq> [] \<and> workspaceStorage m \<longrightarrow>
            (\<forall>e. save = Inl e \<longrightarrow>
               Pause m now sid save = (Some (WrappedS ''failed to save workspace'' e), m1))
            \<and> (\<forall>url. save = Inr url \<and> \<not> unavailable (store m) \<longrightarrow>
                 (\<exists>m2. Pause m now sid save = (None, m2)
                   \<and> unavailable (store m2) = unavailable (store m)
                   \<and> rows (store m2) = (rows (store m))(SessionID x \<mapsto>
                        as_row (x\<lparr>WorkspaceURL := url, SessionStatus := SessionStatusPaused,
                                  PausedAt := Some now, SandboxID := [], UpdatedAt := now\<rparr>)))))"
proof -
  from Get_keeps [OF assms] have k: "store m1 = store m" "workspaceStorage m1 = workspaceStorage m"
    by simp_all
  have a: "\<exists>e. Pause m now sid save = (Some e, m1) \<and> InvalidState e"
    if "SessionStatus x \<noteq> SessionStatusActive \<or> SandboxID x = []"
    using that assms by (auto simp: Pause_def InvalidState_def)
  have b: "Pause m now sid save = (Some (WrappedS ''failed to save workspace'' e), m1)"
    if "SessionStatus x = SessionStatusActive \<and> SandboxID x \<noteq> [] \<and> workspaceStorage m"
      and "save = Inl e" for e
    using that assms k by (simp add: Pause_def)
  have c: "\<exists>m2. Pause m now sid save = (None, m2)
             \<and> unavailable (store m2) = unavailable (store m)
             \<and> rows (store m2) = (rows (store m))(SessionID x \<mapsto>
                  as_row (x\<lparr>WorkspaceURL := url, SessionStatus := SessionStatusPaused,
                            PausedAt := Some now, SandboxID := [], UpdatedAt := now\<rparr>))"
    if "SessionStatus x = SessionStatusActive \<and> SandboxID x \<noteq> [] \<and> workspaceStorage m"
      and "save = Inr url \<and> \<not> unavailable (store m)" for url
    using that assms k by (simp add: Pause_def Update_def store_Update_def Let_def)
  from k(1) a b c show ?thesis by blast
qed

text \<open>
  The example: the session \<open>s1\<close>, bound to \<open>sb1\<close>, is paused at time 2, once with
  an archive that fails and once with one that returns its key; and the session as
  created, with no sandbox bound, is refused.
\<close>

lemma Pause_contract_example:
  "Get (mgr_run m0 ops_bound) 2 ''s1'' = (Inr x_bound, mgr_run m0 ops_bound)
   \<and> Pause (mgr_run m0 ops_bound) 2 ''s1'' (Inl (ArchiveError ''upload''))
       = (Some (WrappedS ''failed to save workspace'' (ArchiveError ''upload'')), mgr_run m0 ops_bound)
   \<and> (\<exists>m2. Pause (mgr_run m0 ops_bound) 2 ''s1'' (Inr ''workspaces/s1/workspace.tar.gz'') = (None, m2)
        \<and> rows (store m2) ''s1'' =
            Some (x_bound\<lparr>WorkspaceURL := ''workspaces/s1/workspace.tar.gz'',
                           SessionStatus := SessionStatusPaused, PausedAt := Some 2,
                           SandboxID := [], UpdatedAt := 2\<rparr>))
   \<and> Get (mgr_run m0 [(0, OpCreate ''s1'' creq0)]) 2 ''s1''
       = (Inr x_new, mgr_run m0 [(0, OpCreate ''s1'' creq0)])
   \<and> Pause (mgr_run m0 [(0, OpCreate ''s1'' creq0)]) 2 ''s1'' (Inr ''workspaces/s1/workspace.tar.gz'')
       = (Some NoSandboxBound, mgr_run m0 [(0, OpCreate ''s1'' creq0)])"
proof -
  let ?m = "mgr_run m0 ops_bound"
  let ?n = "mgr_run m0 [(0, OpCreate ''s1'' creq0)]"
  let ?url = "''workspaces/s1/workspace.tar.gz''"
  have g: "Get ?m 2 ''s1'' = (Inr x_bound, ?m)"
    by (simp add: run_bound Get_def cache_Get_def)
  have w: "workspaceStorage m0" by (simp add: m0_def NewManager_def)
  have f: "SessionStatus x_bound = SessionStatusActive \<and> SandboxID x_bound \<noteq> []
           \<and> workspaceStorage ?m \<and> \<not> unavailable (store ?m) \<and> SessionID x_bound = ''s1''"
    using w by (simp add: run_bound x_bound_def x_new_def)
  have row: "as_row (x_bound\<lparr>WorkspaceURL := ?url, SessionStatus := SessionStatusPaused,
                                PausedAt := Some 2, SandboxID := [], UpdatedAt := 2\<rparr>)
           = x_bound\<lparr>WorkspaceURL := ?url, SessionStatus := SessionStatusPaused,
                                PausedAt := Some 2, SandboxID := [], UpdatedAt := 2\<rparr>"
    by (simp add: as_row_def x_bound_def x_new_def)
  from Pause_contract [OF g, of "Inl (ArchiveError ''upload'')"] f
  have 1: "Pause ?m 2 ''s1'' (Inl (ArchiveError ''upload''))
       = (Some (WrappedS ''failed to save workspace'' (ArchiveError ''upload'')), ?m)"
    by simp
  from Pause_contract [OF g, of "Inr ?url"] f
  have 2: "\<exists>m2. Pause ?m 2 ''s1'' (Inr ?url) = (None, m2)
        \<and> rows (store m2) ''s1'' =
            Some (x_bound\<lparr>WorkspaceURL := ?url, SessionStatus := SessionStatusPaused,
                           PausedAt := Some 2, SandboxID := [], UpdatedAt := 2\<rparr>)"
    by (auto simp: row)
  have g': "Get ?n 2 ''s1'' = (Inr x_new, ?n)"
    by (simp add: m0_def mc0_def creq0_def x_new_def mgr_defs)
  have 3: "Pause ?n 2 ''s1'' (Inr ?url) = (Some NoSandboxBound, ?n)"
    using g' by (simp add: Pause_def x_new_def)
  from g 1 2 g' 3 show ?thesis by blast
qed

text \<open>
  In terms of the stored record. Let the database answer and hold for the id the record
  \<open>x\<close>, not expired, and let the cache agree with it (no live entry, or an entry with
  the status and the sandbox id of \<open>x\<close>). Then \<^verbatim>\<open>Pause\<close> does what the claim
  says: unless \<open>x\<close> is active with a sandbox bound it fails with an error of kind
  \<^verbatim>\<open>InvalidState\<close> and the store is unchanged; when \<^verbatim>\<open>Save\<close> fails it fails
  with the wrapped error and the store is unchanged; when \<^verbatim>\<open>Save\<close> returns a key
  the row of the session is replaced by one with that key, status paused,
  \<^verbatim>\<open>paused_at\<close> now and no sandbox id, and no other row changes. The other fields of
  the new row are those of \<open>x\<close> when the cache has no live entry; with a live entry
  they are those of the cached copy.
\<close>

lemma Get_stored:
  assumes "rows (store m) sid = Some x" and "\<not> unavailable (store m)" and "\<not> IsExpired x now"
    and "cache_lookup m now sid = None"
  shows "Get m now sid = (Inr x, m\<lparr>cache := cache_refresh (cache m) now x\<rparr>)"
  using assms by (simp add: Get_def cache_lookup_def store_Get_def)

lemma Get_cached:
  assumes "cache_lookup m now sid = Some y"
  shows "Get m now sid = (Inr y, m)"
  using assms by (simp add: Get_def cache_lookup_def)

lemma Pause_stored:
  assumes row: "rows (store m) sid = Some x" and key: "SessionID x = sid"
    and up: "\<not> unavailable (store m)" and live: "\<not> IsExpired x now"
    and agree: "cache_agrees m now sid x"
  shows "(SessionStatus x \<noteq> SessionStatusActive \<or> SandboxID x = [] \<longrightarrow>
            (\<exists>e m1. Pause m now sid save = (Some e, m1) \<and> InvalidState e \<and> store m1 = store m))
       \<and> (SessionStatus x = SessionStatusActive \<and> SandboxID x \<noteq> [] \<and> workspaceStorage m \<longrightarrow>
            (\<forall>e. save = Inl e \<longrightarrow>
               (\<exists>m1. Pause m now sid save = (Some (WrappedS ''failed to save workspace'' e), m1)
                  \<and> store m1 = store m))
            \<and> (\<forall>url. save = Inr url \<longrightarrow>
                 (\<exists>m2 r. Pause m now sid save = (None, m2)
                   \<and> unavailable (store m2) = unavailable (store m)
                   \<and> rows (store m2) = (rows (store m))(sid \<mapsto> r)
                   \<and> SessionID r = sid \<and> WorkspaceURL r = url
                   \<and> SessionStatus r = SessionStatusPaused \<and> PausedAt r = Some now
                   \<and> SandboxID r = [] \<and> UpdatedAt r = now
                   \<and> (cache_lookup m now sid = None \<longrightarrow>
                        r = as_row (x\<lparr>WorkspaceURL := url, SessionStatus := SessionStatusPaused,
                                       PausedAt := Some now, SandboxID := [], UpdatedAt := now\<rparr>)))))"
proof -
  obtain y m1 where g: "Get m now sid = (Inr y, m1)"
    and y: "SessionID y = sid" "SessionStatus y = SessionStatus x" "SandboxID y = SandboxID x"
    and miss: "cache_lookup m now sid = None \<longrightarrow> y = x"
  proof (cases "cache_lookup m now sid")
    case None
    from Get_stored [OF row up live None] key None that show ?thesis by simp
  next
    case (Some c)
    from Get_cached [OF Some] agree Some key that show ?thesis
      by (simp add: cache_agrees_def)
  qed
  note pc = Pause_contract [OF g, of save]
  from pc have st: "store m1 = store m" by simp
  have a: "\<exists>e m1. Pause m now sid save = (Some e, m1) \<and> InvalidState e \<and> store m1 = store m"
    if "SessionStatus x \<noteq> SessionStatusActive \<or> SandboxID x = []"
    using that pc y st by auto
  have b: "\<exists>m1. Pause m now sid save = (Some (WrappedS ''failed to save workspace'' e), m1)
                  \<and> store m1 = store m"
    if "SessionStatus x = SessionStatusActive \<and> SandboxID x \<noteq> [] \<and> workspaceStorage m"
      and "save = Inl e" for e
    using that pc y st by auto
  have c: "\<exists>m2 r. Pause m now sid save = (None, m2)
                   \<and> unavailable (store m2) = unavailable (store m)
                   \<and> rows (store m2) = (rows (store m))(sid \<mapsto> r)
                   \<and> SessionID r = sid \<and> WorkspaceURL r = url
                   \<and> SessionStatus r = SessionStatusPaused \<and> PausedAt r = Some now
                   \<and> SandboxID r = [] \<and> UpdatedAt r = now
                   \<and> (cache_lookup m now sid = None \<longrightarrow>
                        r = as_row (x\<lparr>WorkspaceURL := url, SessionStatus := SessionStatusPaused,
                                       PausedAt := Some now, SandboxID := [], UpdatedAt := now\<rparr>))"
    if "SessionStatus x = SessionStatusActive \<and> SandboxID x \<noteq> [] \<and> workspaceStorage m"
      and "save = Inr url" for url
  proof -
    let ?r = "as_row (y\<lparr>WorkspaceURL := url, SessionStatus := SessionStatusPaused,
                          PausedAt := Some now, SandboxID := [], UpdatedAt := now\<rparr>)"
    from that pc y up obtain m2 where p: "Pause m now sid save = (None, m2)"
      and u: "unavailable (store m2) = unavailable (store m)"
      and r: "rows (store m2) = (rows (store m))(SessionID y \<mapsto> ?r)"
      by auto
    have f: "SessionID ?r = sid" "WorkspaceURL ?r = url" "SessionStatus ?r = SessionStatusPaused"
      "PausedAt ?r = Some now" "SandboxID ?r = []" "UpdatedAt ?r = now"
      using y by (simp_all add: as_row_def)
    from p u r f miss y(1) show ?thesis by auto
  qed
  from a b c show ?thesis by blast
qed

text \<open>
  The two runs in which the cache is behind the store, and what \<^verbatim>\<open>Pause\<close> makes of
  the second: after \<^verbatim>\<open>Touch\<close> at time 5 the stored \<^verbatim>\<open>last_active_at\<close> is 5
  and the cached one is 1; \<^verbatim>\<open>Pause\<close> at time 6 writes the cached copy over the row,
  and the stored \<^verbatim>\<open>last_active_at\<close> is 1 again.
\<close>

lemma run_stale_paused:
  "mgr_run m0 ops_stale_paused =
     m0\<lparr>store := \<lparr>rows = [''s1'' \<mapsto> x_paused2], unavailable = False\<rparr>,
        cache := Some \<lparr>entries = [''s1'' \<mapsto> (x_bound, 3600)], cache_ttl = 86400\<rparr>\<rparr>"
  by (simp add: ops_stale_paused_def ops_bound_def m0_def mc0_def creq0_def x_bound_def x_new_def
      x_paused2_def mgr_defs)

lemma run_touched:
  "mgr_run m0 ops_touched =
     m0\<lparr>store := \<lparr>rows = [''s1'' \<mapsto> x_bound\<lparr>SessionLastActiveAt := 5, UpdatedAt := 5\<rparr>],
                    unavailable = False\<rparr>,
        cache := Some \<lparr>entries = [''s1'' \<mapsto> (x_bound, 3600)], cache_ttl = 86400\<rparr>\<rparr>"
  by (simp add: ops_touched_def ops_bound_def m0_def mc0_def creq0_def x_bound_def x_new_def mgr_defs)

lemma Pause_after_Touch:
  "map_option SessionLastActiveAt (rows (store (mgr_run m0 ops_touched)) ''s1'') = Some 5
   \<and> fst (Pause (mgr_run m0 ops_touched) 6 ''s1'' (Inr ''workspaces/s1/workspace.tar.gz'')) = None
   \<and> map_option SessionLastActiveAt
        (rows (store (snd (Pause (mgr_run m0 ops_touched) 6 ''s1''
                             (Inr ''workspaces/s1/workspace.tar.gz'')))) ''s1'') = Some 1"
  unfolding run_touched
  by (simp add: Pause_def Get_def cache_Get_def Update_def
      store_Update_def cache_refresh_def cache_Set_def as_row_def Let_def
      x_bound_def x_new_def m0_def NewManager_def)

text \<open>
  C3. The claim: \<^verbatim>\<open>Pause\<close> fails with \<^verbatim>\<open>InvalidState\<close> unless the session's
  current state is active with a sandbox bound. The code does not do that when the cache
  is behind the store. The session \<open>s1\<close> is created at time 0 with an hour to live and
  bound to \<open>sb1\<close> at time 1; the cache holds it, active and bound, until time 3600. At
  time 2 the caller stores a snapshot of it that is paused, has no sandbox and ends at
  time 2; the snapshot has no time left, so \<^verbatim>\<open>Update\<close> writes the store and leaves
  the cache alone. The stored record is now paused, without a sandbox, and not yet
  expired at time 2. \<^verbatim>\<open>Pause\<close> at time 2 reads the session through \<^verbatim>\<open>Get\<close>,
  which returns the cached copy; it finds it active and bound, saves the workspace of a
  sandbox the session no longer has, succeeds, and writes the cached copy over the row:
  the stored \<^verbatim>\<open>expires_at\<close> is 3600 again. One tick later, when the stored record
  is also expired, \<^verbatim>\<open>Pause\<close> still succeeds. With no cache the same call on the same
  store is refused: the session is not active.
\<close>

theorem Pause_acts_on_stale_copy:
  "rows (store (mgr_run m0 ops_stale_paused)) ''s1'' = Some x_paused2
   \<and> SessionStatus x_paused2 = SessionStatusPaused \<and> SandboxID x_paused2 = []
   \<and> ExpiresAt x_paused2 = 2 \<and> \<not> IsExpired x_paused2 2 \<and> IsExpired x_paused2 3
   \<and> \<not> unavailable (store (mgr_run m0 ops_stale_paused))
   \<and> cache_lookup (mgr_run m0 ops_stale_paused) 2 ''s1'' = Some x_bound
   \<and> SessionStatus x_bound = SessionStatusActive \<and> SandboxID x_bound = ''sb1''
   \<and> fst (Pause (mgr_run m0 ops_stale_paused) 2 ''s1'' (Inr ''workspaces/s1/workspace.tar.gz'')) = None
   \<and> rows (store (snd (Pause (mgr_run m0 ops_stale_paused) 2 ''s1''
                           (Inr ''workspaces/s1/workspace.tar.gz'')))) ''s1''
       = Some (x_bound\<lparr>WorkspaceURL := ''workspaces/s1/workspace.tar.gz'',
                      SessionStatus := SessionStatusPaused, PausedAt := Some 2, SandboxID := [],
                      UpdatedAt := 2\<rparr>)
   \<and> ExpiresAt x_bound = 3600
   \<and> fst (Pause (mgr_run m0 ops_stale_paused) 3 ''s1'' (Inr ''workspaces/s1/workspace.tar.gz'')) = None
   \<and> Pause ((mgr_run m0 ops_stale_paused)\<lparr>cache := None\<rparr>) 2 ''s1''
        (Inr ''workspaces/s1/workspace.tar.gz'')
       = (Some (SessionNotActive SessionStatusPaused), (mgr_run m0 ops_stale_paused)\<lparr>cache := None\<rparr>)"
  unfolding run_stale_paused
  by (simp add: Pause_def Get_def cache_lookup_def cache_Get_def Update_def store_Get_def
      store_Update_def cache_refresh_def cache_Set_def as_row_def IsExpired_def Let_def
      x_paused2_def x_bound_def x_new_def m0_def NewManager_def)

subsection \<open>A paused session has no sandbox and a pause time\<close>

text \<open>
  C4 as the claim states it: every operation keeps the invariant
  \<open>status = paused \<Longrightarrow> sandbox_id = \<emptyset> \<and> paused_at \<noteq> \<emptyset>\<close>. Two do not.
  After \<^verbatim>\<open>Create\<close>, \<^verbatim>\<open>BindSandbox\<close>, \<^verbatim>\<open>Pause\<close>, a second
  \<^verbatim>\<open>BindSandbox\<close> stores a paused session with the sandbox \<open>sb2\<close> bound; and
  \<^verbatim>\<open>Update\<close> stores the snapshot it is given, here a paused session with a sandbox
  and no pause time.
\<close>

theorem paused_invariant_counterexample:
  "map_option SessionStatus (rows (store (mgr_run m0 ops_rebound)) ''s1'') = Some SessionStatusPaused
   \<and> map_option SandboxID (rows (store (mgr_run m0 ops_rebound)) ''s1'') = Some ''sb2''
   \<and> map_option SessionStatus (rows (store (mgr_run m0 ops_overwritten)) ''s1'') = Some SessionStatusPaused
   \<and> map_option SandboxID (rows (store (mgr_run m0 ops_overwritten)) ''s1'') = Some ''sb1''
   \<and> map_option PausedAt (rows (store (mgr_run m0 ops_overwritten)) ''s1'') = Some None"
  by (simp add: run_rebound_row run_overwritten_row x_bound_def x_new_def)

text \<open>
  C4, amended. Start from a manager whose records satisfy the invariant (a new manager
  has none) and run any sequence of \<^verbatim>\<open>Create\<close>, \<^verbatim>\<open>Get\<close>, \<^verbatim>\<open>Update\<close>,
  \<^verbatim>\<open>Delete\<close>, \<^verbatim>\<open>Pause\<close>, \<^verbatim>\<open>Resume\<close>, \<^verbatim>\<open>Touch\<close>,
  \<^verbatim>\<open>BindSandbox\<close> and \<^verbatim>\<open>UnbindSandbox\<close>, with database outages in between, in
  which every \<^verbatim>\<open>Update\<close> is given a snapshot that satisfies the invariant and every
  \<^verbatim>\<open>BindSandbox\<close> is given the empty id or a session that it does not read as paused.
  Then every record in the store and in the cache, and every session that \<^verbatim>\<open>Get\<close>
  returns afterwards, satisfies: if its status is paused, its sandbox id is empty and
  its \<^verbatim>\<open>paused_at\<close> is set.
\<close>

theorem paused_invariant:
  assumes "mgr_inv m" and "all_checked m ops"
  shows "mgr_inv (mgr_run m ops)
       \<and> (\<forall>sid x. rows (store (mgr_run m ops)) sid = Some x \<longrightarrow>
              SessionStatus x = SessionStatusPaused \<longrightarrow> SandboxID x = [] \<and> PausedAt x \<noteq> None)
       \<and> (\<forall>now sid x m'. Get (mgr_run m ops) now sid = (Inr x, m') \<longrightarrow>
              SessionStatus x = SessionStatusPaused \<longrightarrow> SandboxID x = [] \<and> PausedAt x \<noteq> None)"
proof -
  have inv: "mgr_inv (mgr_run m ops)" using assms by (rule run_inv)
  then have "rows_ok (store (mgr_run m ops))" by (simp add: mgr_inv_def)
  then have 1: "\<forall>sid x. rows (store (mgr_run m ops)) sid = Some x \<longrightarrow>
              SessionStatus x = SessionStatusPaused \<longrightarrow> SandboxID x = [] \<and> PausedAt x \<noteq> None"
    unfolding rows_ok_def paused_ok_def by blast
  have 2: "SandboxID x = [] \<and> PausedAt x \<noteq> None"
    if "Get (mgr_run m ops) now sid = (Inr x, m')" "SessionStatus x = SessionStatusPaused"
    for now sid x m'
    using Get_inv [OF inv that(1)] that(2) by (simp add: paused_ok_def)
  from inv 1 2 show ?thesis by blast
qed

theorem paused_invariant_witness:
  "mgr_inv m0 \<and> all_checked m0 ops_paused
   \<and> rows (store (mgr_run m0 ops_paused)) ''s1'' =
       Some (x_bound\<lparr>WorkspaceURL := ''workspaces/s1/workspace.tar.gz'',
                      SessionStatus := SessionStatusPaused, PausedAt := Some 2, SandboxID := [],
                      UpdatedAt := 2\<rparr>)
   \<and> mgr_inv (mgr_run m0 ops_paused)"
  using paused_invariant [OF mgr_inv_m0 all_checked_paused] mgr_inv_m0 all_checked_paused
    run_paused_row
  by simp

subsection \<open>The expiry of a new session\<close>

text \<open>
  C5 as the claim states it: a request with ttl 0 gives \<open>expires_at = now + default_ttl\<close>.
  Not when the default is above the maximum: with a default of 10 and a maximum of 5 a
  request with ttl 0 at time 100 expires at 105.
\<close>

theorem Create_default_ttl_counterexample:
  "reqTTL (creq0\<lparr>reqTTL := 0\<rparr>) = 0 \<and> defaultTTL m_cap = 10 \<and> maxTTL m_cap = 5
   \<and> map_sum (\<lambda>e. e) ExpiresAt (fst (Create m_cap 100 ''s1'' (creq0\<lparr>reqTTL := 0\<rparr>))) = Inr 105"
  by (simp add: m_cap_def creq0_def NewManager_def Create_def store_Create_def create_ttl_def
      Let_def)

text \<open>
  C5, amended. A session that \<^verbatim>\<open>Create\<close> returns has
  \<open>expires_at = now + ttl\<close>, where the ttl is the requested one, or the default when
  the request has 0, and then the maximum when that is above the maximum. So
  \<open>expires_at\<close> is never after \<open>now + max_ttl\<close>; a request that is not 0 and
  is above the maximum gives exactly \<open>now + max_ttl\<close>; and a request with ttl 0 gives
  \<open>now + min (default_ttl, max_ttl)\<close>, which is \<open>now + default_ttl\<close> when the
  default is at most the maximum. The session is stored under its id.
\<close>

theorem Create_expires_at:
  assumes "Create m now uuid req = (Inr s, m')"
  shows "ExpiresAt s = now + create_ttl m req
       \<and> (reqTTL req \<noteq> 0 \<longrightarrow> ExpiresAt s = now + min (reqTTL req) (maxTTL m))
       \<and> (reqTTL req = 0 \<longrightarrow> ExpiresAt s = now + min (defaultTTL m) (maxTTL m))
       \<and> ExpiresAt s \<le> now + maxTTL m
       \<and> (reqTTL req > maxTTL m \<and> reqTTL req \<noteq> 0 \<longrightarrow> ExpiresAt s = now + maxTTL m)
       \<and> (reqTTL req = 0 \<and> defaultTTL m \<le> maxTTL m \<longrightarrow> ExpiresAt s = now + defaultTTL m)
       \<and> rows (store m') uuid = Some (as_row s)"
proof -
  from assms have e: "ExpiresAt s = now + create_ttl m req"
    and r: "rows (store m') uuid = Some (as_row s)"
    by (auto simp: Create_def store_Create_def Let_def split: sum.splits if_splits)
  from e r show ?thesis
    by (auto simp: create_ttl_def Let_def min_def)
qed

text \<open>
  The example: with the default configuration (a day, at most a week) a request for ten
  days made at time 0 expires after a week, and one with ttl 0 after a day.
\<close>

theorem Create_expires_at_witness:
  "(\<exists>s m'. Create m0 0 ''s1'' (creq0\<lparr>reqTTL := 864000\<rparr>) = (Inr s, m') \<and> ExpiresAt s = 604800)
   \<and> (\<exists>s m'. Create m0 0 ''s2'' (creq0\<lparr>reqTTL := 0\<rparr>) = (Inr s, m') \<and> ExpiresAt s = 86400)"
proof -
  obtain s1 m1 where 1: "Create m0 0 ''s1'' (creq0\<lparr>reqTTL := 864000\<rparr>) = (Inr s1, m1)"
    by (simp add: m0_def NewManager_def Create_def store_Create_def Let_def)
  obtain s2 m2 where 2: "Create m0 0 ''s2'' (creq0\<lparr>reqTTL := 0\<rparr>) = (Inr s2, m2)"
    by (simp add: m0_def NewManager_def Create_def store_Create_def Let_def)
  have c: "maxTTL m0 = 604800" "defaultTTL m0 = 86400"
    by (simp_all add: m0_def mc0_def NewManager_def)
  from Create_expires_at [OF 1] c have "ExpiresAt s1 = 604800"
    by (simp add: creq0_def)
  moreover from Create_expires_at [OF 2] c have "ExpiresAt s2 = 86400"
    by (simp add: creq0_def)
  ultimately show ?thesis using 1 2 by blast
qed

end
